theory Spec2Isabelle
  imports Main "HOL-Library.AList" "HOL-Library.Code_Target_Nat"
begin

section \<open>Vendor connection manager: data model\<close>

text \<open>
  The repository holds two full variants of the connection manager (both in
  \<^verbatim>\<open>src/unnamed/part_000\<close>: lines 1-424, called variant 1 below, and lines
  425-962, called variant 2) and an early prototype (\<^verbatim>\<open>part_001\<close>).  Functions
  that are textually identical in both variants are modelled once; where the
  variants differ the second one carries the suffix \<open>2\<close>.

  Conventions of the embedding:
  \<^item> the JavaScript \<^verbatim>\<open>Map\<close> \<open>vendors\<close> is an association list in insertion
    order (\<^verbatim>\<open>set\<close> is \<^const>\<open>AList.update\<close>, \<^verbatim>\<open>delete\<close> is
    \<^const>\<open>AList.delete\<close>, \<^verbatim>\<open>get\<close> is \<^const>\<open>map_of\<close>);
  \<^item> the JavaScript \<^verbatim>\<open>Set\<close> \<open>usedPorts\<close> is a list in insertion order;
  \<^item> an optional field (\<^verbatim>\<open>undefined\<close> in the source) is an \<open>option\<close>;
  \<^item> a \<^verbatim>\<open>Date\<close> is a number of milliseconds since the epoch; \<^verbatim>\<open>new Date()\<close>
    reads it from a parameter \<open>now\<close>;
  \<^item> the text of \<^verbatim>\<open>vendors.json\<close> is identified with the array of objects it
    denotes: what \<^verbatim>\<open>JSON.stringify\<close> does to the values (a \<^verbatim>\<open>Date\<close> becomes
    its ISO string, an \<^verbatim>\<open>undefined\<close> key is left out) is modelled, and
    \<^verbatim>\<open>JSON.parse\<close> is taken to read back the objects so written;
  \<^item> a provider object is a handle: the number of \<^verbatim>\<open>createProvider\<close> calls
    made before it was created;
  \<^item> \<^verbatim>\<open>BASE_PORT = Number(process.env.PORT ?? 3008)\<close> is a parameter \<open>bp\<close>;
  \<^item> \<^verbatim>\<open>uuidv4()\<close> is a parameter of the registration;
  \<^item> the library calls \<^verbatim>\<open>createProvider\<close>, \<^verbatim>\<open>createBot\<close>, \<^verbatim>\<open>httpServer\<close>,
    the socket's \<^verbatim>\<open>terminate\<close> and the writes of \<^verbatim>\<open>fs\<close> are taken to
    return normally; \<^verbatim>\<open>sendText\<close> may throw, and reading a file may fail.
\<close>

datatype status = pending | connected | disconnected

text \<open>The value of \<^verbatim>\<open>lastConnection\<close>: a \<^verbatim>\<open>Date\<close> when the \<^verbatim>\<open>ready\<close> handler
  has set it, a string when it was read from \<^verbatim>\<open>vendors.json\<close>.\<close>

datatype timestamp = Date nat | IsoString string

text \<open>\<^verbatim>\<open>Date.prototype.toISOString\<close>, for a time at or after the epoch:
  \<open>YYYY-MM-DDTHH:mm:ss.sssZ\<close>, the year with a sign and six digits when it is
  beyond 9999 (a \<^verbatim>\<open>Date\<close> holds at most 8640000000000000 ms, in the year
  275760).  The date is computed from the day number in the proleptic
  Gregorian calendar, by 400-year eras starting on 1 March (the month \<open>mp\<close>
  counts from March, the year of months 10 and 11 is the next one).\<close>

definition digit :: "nat \<Rightarrow> char" where
  "digit n = ''0123456789'' ! (n mod 10)"

definition pad2 :: "nat \<Rightarrow> string" where
  "pad2 n = [digit (n div 10), digit n]"

definition pad3 :: "nat \<Rightarrow> string" where
  "pad3 n = digit (n div 100) # pad2 n"

definition pad4 :: "nat \<Rightarrow> string" where
  "pad4 n = digit (n div 1000) # pad3 n"

definition pad6 :: "nat \<Rightarrow> string" where
  "pad6 n = digit (n div 100000) # digit (n div 10000) # pad4 n"

definition civilFromMonth :: "nat \<Rightarrow> nat \<Rightarrow> nat \<Rightarrow> nat \<times> nat \<times> nat" where
  "civilFromMonth y doy mp =
     (if mp < 10 then (y, mp + 3, doy - (153 * mp + 2) div 5 + 1)
      else (y + 1, mp - 9, doy - (153 * mp + 2) div 5 + 1))"

definition civilFromDayOfYear :: "nat \<Rightarrow> nat \<Rightarrow> nat \<times> nat \<times> nat" where
  "civilFromDayOfYear y doy = civilFromMonth y doy ((5 * doy + 2) div 153)"

definition civilFromYearOfEra :: "nat \<Rightarrow> nat \<Rightarrow> nat \<Rightarrow> nat \<times> nat \<times> nat" where
  "civilFromYearOfEra era doe yoe =
     civilFromDayOfYear (yoe + era * 400) (doe - (365 * yoe + yoe div 4 - yoe div 100))"

definition civilFromDayOfEra :: "nat \<Rightarrow> nat \<Rightarrow> nat \<times> nat \<times> nat" where
  "civilFromDayOfEra era doe =
     civilFromYearOfEra era doe
       ((doe - doe div 1460 + doe div 36524 - doe div 146096) div 365)"

definition civilFromDays :: "nat \<Rightarrow> nat \<times> nat \<times> nat" where
  "civilFromDays days =
     civilFromDayOfEra ((days + 719468) div 146097) ((days + 719468) mod 146097)"

definition isoTime :: "nat \<Rightarrow> string" where
  "isoTime t =
     pad2 (t div 3600000) @ '':'' @ pad2 (t div 60000 mod 60) @ '':'' @
     pad2 (t div 1000 mod 60) @ ''.'' @ pad3 (t mod 1000)"

definition isoDate :: "nat \<times> nat \<times> nat \<Rightarrow> string" where
  "isoDate ymd =
     (case ymd of (y, m, d) \<Rightarrow>
        (if y \<le> 9999 then pad4 y else ''+'' @ pad6 y) @ ''-'' @ pad2 m @ ''-'' @ pad2 d)"

definition toISOString :: "nat \<Rightarrow> string" where
  "toISOString ms =
     isoDate (civilFromDays (ms div 86400000)) @ ''T'' @ isoTime (ms mod 86400000) @ ''Z''"

text \<open>The string that \<^verbatim>\<open>JSON.stringify\<close> writes for the value and
  \<^verbatim>\<open>JSON.parse\<close> reads back: a \<^verbatim>\<open>Date\<close> goes through its \<^verbatim>\<open>toJSON\<close>.\<close>

fun toJSON :: "timestamp \<Rightarrow> string" where
  "toJSON (Date ms) = toISOString ms"
| "toJSON (IsoString s) = s"

record vendor =
  vendorId :: string
  provider :: nat
  phoneNumber :: string
  name :: string
  status :: status
  qr :: "string option"
  lastConnection :: "timestamp option"
  reconnectAttempts :: nat
  port :: int
  assignedNumber :: "string option"

record ConnectionMetrics =
  totalConnections :: int
  activeConnections :: nat
  pendingConnections :: nat
  failedConnections :: int

text \<open>One object of the array in \<^verbatim>\<open>vendors.json\<close>, as \<^verbatim>\<open>JSON.parse\<close> returns
  it.  A key that \<^verbatim>\<open>JSON.stringify\<close> leaves out (an \<^verbatim>\<open>undefined\<close> value, or a
  key the object literal does not have) is \<open>None\<close>; a \<open>lastConnection\<close> read
  from a file that this program wrote is a string.\<close>

record persisted =
  p_id :: string
  p_name :: string
  p_phoneNumber :: string
  p_assignedNumber :: "string option"
  p_status :: status
  p_lastConnection :: "string option"
  p_port :: "int option"

datatype vendors_file = Absent | Unreadable | Stored "persisted list"

text \<open>One entry of a conversation file.\<close>

datatype sender = user | bot

record conversation_entry =
  c_sender :: sender
  c_message :: string
  c_vendorNumber :: "string option"
  c_timestamp :: string

text \<open>A conversation file: missing, holding text that \<^verbatim>\<open>JSON.parse\<close> rejects
  (with the message of the error it throws), or holding an array of entries.\<close>

datatype conversation_file =
  NoConversation | CorruptConversation string | Conversation "conversation_entry list"

text \<open>One element of the result list of a broadcast.\<close>

record send_result =
  r_vendorId :: string
  r_success :: bool
  r_error :: "string option"

text \<open>What a refresh callback of variant 2 closes over (lines 616, 628-638):
  the vendor object that the \<^verbatim>\<open>qr\<close> handler looked up.  The registry of the
  model holds values, so the identity of that object is recorded apart: the
  lookup found nothing (\<open>Undefined\<close>), or the object is the one the registry
  holds under the handler's id (\<open>Attached\<close>: it changes with the registry's
  entry), or the registry has since dropped or replaced it (\<open>Detached\<close>, with
  the value it had then: nothing writes to such an object again).\<close>

datatype capture = Undefined | Attached | Detached vendor

record state =
  vendors :: "(string \<times> vendor) list"
  usedPorts :: "int list"
  metrics :: ConnectionMetrics
  vendorsFile :: vendors_file
  conversations :: "string \<times> string \<Rightarrow> conversation_file"
  providers :: nat
  intervals :: "nat list"
  closures :: "(nat \<times> string \<times> capture) list"
  httpServers :: "int list"
  warnings :: "(string \<times> string) list"
  sendAttempts :: "(nat \<times> string \<times> string) list"

text \<open>
  The fields of \<open>state\<close> beyond the globals of the source record what the
  process has done to its collaborators: \<open>providers\<close> counts the
  \<^verbatim>\<open>createProvider\<close> calls, \<open>intervals\<close> lists the provider handles whose
  subscription (one call of \<^verbatim>\<open>setupProviderEvents\<close>) has a live
  \<^verbatim>\<open>qrRefreshInterval\<close>, \<open>closures\<close> gives for a provider handle the id and the
  vendor object that the callback of its latest interval closes over,
  \<open>httpServers\<close> lists the ports given to
  \<^verbatim>\<open>httpServer\<close>, \<open>warnings\<close> the (expected, got) pairs of
  \<^verbatim>\<open>console.warn\<close>, and \<open>sendAttempts\<close> the (provider, target, message)
  triples of the \<^verbatim>\<open>sendText\<close> calls.
\<close>

text \<open>The state of a freshly started process (lines 20, 54-60 and 481-488).\<close>

definition initial :: "vendors_file \<Rightarrow> (string \<times> string \<Rightarrow> conversation_file) \<Rightarrow> state" where
  "initial f c =
     \<lparr>vendors = [], usedPorts = [],
      metrics = \<lparr>totalConnections = 0, activeConnections = 0,
                 pendingConnections = 0, failedConnections = 0\<rparr>,
      vendorsFile = f, conversations = c, providers = 0, intervals = [], closures = [],
      httpServers = [], warnings = [], sendAttempts = []\<rparr>"

section \<open>Port allocator\<close>

definition MAX_CONCURRENT_CONNECTIONS :: int where
  "MAX_CONCURRENT_CONNECTIONS = 70"

definition VENDOR_BASE_PORT :: "int \<Rightarrow> int" where
  "VENDOR_BASE_PORT bp = bp + 100"

definition PORT_RANGE_START :: "int \<Rightarrow> int" where
  "PORT_RANGE_START bp = VENDOR_BASE_PORT bp"

definition PORT_RANGE_END :: "int \<Rightarrow> int" where
  "PORT_RANGE_END bp = VENDOR_BASE_PORT bp + MAX_CONCURRENT_CONNECTIONS"

datatype error = NoPortsAvailable | JsonSyntaxError string

text \<open>\<^verbatim>\<open>usedPorts.add(port)\<close> and \<^verbatim>\<open>usedPorts.delete(port)\<close> of a JavaScript Set.\<close>

definition Set_add :: "int \<Rightarrow> int list \<Rightarrow> int list" where
  "Set_add p used = (if p \<in> set used then used else used @ [p])"

definition Set_delete :: "int \<Rightarrow> int list \<Rightarrow> int list" where
  "Set_delete p used = removeAll p used"

text \<open>The loop of \<^verbatim>\<open>getAvailablePort\<close> (lines 62-70 and 491-499), from the
  current value of its counter \<open>p\<close> up to and including \<open>hi\<close>.\<close>

function scanPorts :: "int \<Rightarrow> int \<Rightarrow> int list \<Rightarrow> error + int \<times> int list" where
  "scanPorts p hi used =
     (if p \<le> hi
      then (if p \<notin> set used then Inr (p, Set_add p used) else scanPorts (p + 1) hi used)
      else Inl NoPortsAvailable)"
  by pat_completeness auto
termination
  by (relation "measure (\<lambda>(p, hi, used). nat (hi + 1 - p))") auto

declare scanPorts.simps [simp del]

definition getAvailablePort :: "int \<Rightarrow> int list \<Rightarrow> error + int \<times> int list" where
  "getAvailablePort bp used = scanPorts (PORT_RANGE_START bp) (PORT_RANGE_END bp) used"

text \<open>A run of the allocator on its own: \<open>Acquire\<close> is \<^verbatim>\<open>getAvailablePort()\<close>
  (a failed call leaves the set as it was), \<open>Release p\<close> is the
  \<^verbatim>\<open>usedPorts.delete(p)\<close> of \<^verbatim>\<open>cleanupVendor\<close>.\<close>

datatype pool_op = Acquire | Release int

fun pool_step :: "int \<Rightarrow> int list \<Rightarrow> pool_op \<Rightarrow> int list" where
  "pool_step bp used Acquire =
     (case getAvailablePort bp used of Inl e \<Rightarrow> used | Inr (p, used') \<Rightarrow> used')"
| "pool_step bp used (Release p) = Set_delete p used"

definition pool_run :: "int \<Rightarrow> pool_op list \<Rightarrow> int list" where
  "pool_run bp ops = foldl (pool_step bp) [] ops"

section \<open>Metrics, cleanup and the persistence store\<close>

text \<open>\<^verbatim>\<open>updateMetrics\<close> (lines 72-77 and 501-506).\<close>

definition updateMetrics :: "state \<Rightarrow> state" where
  "updateMetrics st =
     st\<lparr>metrics := (metrics st)
        \<lparr>activeConnections := length (filter (\<lambda>v. status v = connected) (map snd (vendors st))),
         pendingConnections := length (filter (\<lambda>v. status v = pending) (map snd (vendors st)))\<rparr>\<rparr>"

text \<open>The object literal of \<^verbatim>\<open>saveVendorsToFile\<close>, as it is read back from
  the file: six keys in variant 1 (lines 90-97), seven in variant 2 (lines
  558-566); \<^verbatim>\<open>GET /vendors/\<close> of variant 2 builds the same seven keys (lines
  878-886) and serialises them in its response.\<close>

definition toPersisted :: "vendor \<Rightarrow> persisted" where
  "toPersisted v =
     \<lparr>p_id = vendorId v, p_name = name v, p_phoneNumber = phoneNumber v,
      p_assignedNumber = assignedNumber v, p_status = status v,
      p_lastConnection = map_option toJSON (lastConnection v), p_port = None\<rparr>"

definition toPersisted2 :: "vendor \<Rightarrow> persisted" where
  "toPersisted2 v =
     \<lparr>p_id = vendorId v, p_name = name v, p_phoneNumber = phoneNumber v,
      p_assignedNumber = assignedNumber v, p_status = status v,
      p_lastConnection = map_option toJSON (lastConnection v), p_port = Some (port v)\<rparr>"

definition saveVendorsToFile :: "state \<Rightarrow> state" where
  "saveVendorsToFile st = st\<lparr>vendorsFile := Stored (map toPersisted (map snd (vendors st)))\<rparr>"

definition saveVendorsToFile2 :: "state \<Rightarrow> state" where
  "saveVendorsToFile2 st = st\<lparr>vendorsFile := Stored (map toPersisted2 (map snd (vendors st)))\<rparr>"

text \<open>\<^verbatim>\<open>loadVendorsFromFile\<close> (lines 105-115 and 574-585): the empty list when
  the file is missing or when reading or parsing it throws.\<close>

definition loadVendorsFromFile :: "state \<Rightarrow> persisted list" where
  "loadVendorsFromFile st =
     (case vendorsFile st of Absent \<Rightarrow> [] | Unreadable \<Rightarrow> [] | Stored ps \<Rightarrow> ps)"

text \<open>\<^verbatim>\<open>cleanupVendor\<close> of variant 1 (lines 79-87).\<close>

definition cleanupVendor :: "string \<Rightarrow> state \<Rightarrow> state" where
  "cleanupVendor i st =
     (case map_of (vendors st) i of
        None \<Rightarrow> st
      | Some v \<Rightarrow>
          updateMetrics
            (st\<lparr>usedPorts := Set_delete (port v) (usedPorts st),
                vendors := AList.delete i (vendors st),
                metrics := (metrics st)\<lparr>totalConnections := totalConnections (metrics st) - 1\<rparr>\<rparr>))"

text \<open>Variant 2 replaces or deletes the registry's object for an id in
  \<^verbatim>\<open>vendors.set(id, {...})\<close> and \<^verbatim>\<open>vendors.delete(id)\<close>.  The callbacks that
  closed over the object then keep it as it is at that moment.\<close>

definition detach :: "string \<Rightarrow> state \<Rightarrow> state" where
  "detach i st =
     st\<lparr>closures :=
          map (\<lambda>(p, k, c).
                 (p, k, if k = i \<and> c = Attached
                        then (case map_of (vendors st) i of
                                None \<Rightarrow> Undefined
                              | Some v \<Rightarrow> Detached v)
                        else c))
              (closures st)\<rparr>"

text \<open>\<^verbatim>\<open>cleanupVendor\<close> of variant 2 (lines 508-530): the socket is terminated,
  then the vendor is deleted, its port released and the file rewritten.\<close>

definition cleanupVendor2 :: "string \<Rightarrow> state \<Rightarrow> state" where
  "cleanupVendor2 i st =
     (case map_of (vendors st) i of
        None \<Rightarrow> st
      | Some v \<Rightarrow>
          saveVendorsToFile2 (updateMetrics
            ((detach i st)\<lparr>vendors := AList.delete i (vendors st),
                usedPorts := Set_delete (port v) (usedPorts st),
                metrics := (metrics st)\<lparr>totalConnections := totalConnections (metrics st) - 1\<rparr>\<rparr>)))"

section \<open>Conversation log\<close>

text \<open>\<^verbatim>\<open>saveConversation\<close> (lines 117-139 and 532-554).  \<^verbatim>\<open>JSON.parse\<close> throws
  on a corrupt file, and the function does not catch it.\<close>

definition saveConversation ::
    "string \<Rightarrow> string \<Rightarrow> string \<Rightarrow> sender \<Rightarrow> nat \<Rightarrow> state \<Rightarrow> error + state" where
  "saveConversation vid uid msg sndr now st =
     (let entry = \<lparr>c_sender = sndr, c_message = msg,
                    c_vendorNumber =
                      (if sndr = bot then map_option phoneNumber (map_of (vendors st) vid) else None),
                    c_timestamp = toISOString now\<rparr>
      in case conversations st (vid, uid) of
           NoConversation \<Rightarrow>
             Inr (st\<lparr>conversations := fun_upd (conversations st) (vid, uid) (Conversation [entry])\<rparr>)
         | CorruptConversation m \<Rightarrow> Inl (JsonSyntaxError m)
         | Conversation es \<Rightarrow>
             Inr (st\<lparr>conversations := fun_upd (conversations st) (vid, uid) (Conversation (es @ [entry]))\<rparr>))"

text \<open>\<^verbatim>\<open>error.message\<close>.\<close>

fun message :: "error \<Rightarrow> string" where
  "message NoPortsAvailable = ''No ports available''"
| "message (JsonSyntaxError m) = m"

section \<open>Variant 1: registration, provider events, control API\<close>

datatype response =
    Registered string int
  | MaximumConnectionsReached
  | NameAndPhoneRequired
  | PhoneAlreadyRegistered
  | NoAvailablePorts
  | FailedToInitialize
  | VendorNotFound
  | PhoneCannotBeUpdated
  | NotFoundOrNotConnected
  | FailedToSend
  | Success

text \<open>The duplicate check shared by both registration handlers (lines 161-167
  and 740-746): the first persisted vendor with this assigned number, if it
  is not disconnected.\<close>

definition alreadyRegistered :: "string \<Rightarrow> state \<Rightarrow> bool" where
  "alreadyRegistered phone st =
     (case List.find (\<lambda>v. p_assignedNumber v = Some phone) (loadVendorsFromFile st) of
        None \<Rightarrow> False
      | Some existing \<Rightarrow> p_status existing \<noteq> disconnected)"

text \<open>\<^verbatim>\<open>POST /vendors/register\<close> behind \<^verbatim>\<open>connectionLimitMiddleware\<close>
  (lines 141-147, 153-272).  \<open>nm\<close> and \<open>phone\<close> are the body's fields (the empty
  string when missing: both are falsy), \<open>newId\<close> is the value of \<^verbatim>\<open>uuidv4()\<close>.\<close>

definition registerVendor :: "int \<Rightarrow> string \<Rightarrow> string \<Rightarrow> string \<Rightarrow> state \<Rightarrow> response \<times> state" where
  "registerVendor bp nm phone newId st =
     (if int (length (vendors st)) \<ge> MAX_CONCURRENT_CONNECTIONS then (MaximumConnectionsReached, st)
      else if nm = [] \<or> phone = [] then (NameAndPhoneRequired, st)
      else if alreadyRegistered phone st then (PhoneAlreadyRegistered, st)
      else case getAvailablePort bp (usedPorts st) of
             Inl e \<Rightarrow> (NoAvailablePorts, st)
           | Inr (vendorPort, used') \<Rightarrow>
               let pr = providers st;
                   st1 = st\<lparr>usedPorts := used', providers := pr + 1\<rparr>;
                   st2 = st1\<lparr>vendors := AList.update newId
                            \<lparr>vendorId = newId, provider = pr, phoneNumber = [], name = nm,
                             status = pending, qr = None, lastConnection = None,
                             reconnectAttempts = 0, port = vendorPort,
                             assignedNumber = Some phone\<rparr> (vendors st1)\<rparr>;
                   st3 = st2\<lparr>metrics := (metrics st2)
                            \<lparr>totalConnections := totalConnections (metrics st2) + 1\<rparr>\<rparr>;
                   st4 = saveVendorsToFile (updateMetrics st3)
               in (Registered newId vendorPort, st4\<lparr>httpServers := httpServers st4 @ [vendorPort]\<rparr>))"

text \<open>The four handlers that registration subscribes (lines 187-232).  Each
  closes over the vendor's id \<open>i\<close>; the \<^verbatim>\<open>ready\<close> handler also closes over the
  requested \<open>phone\<close>.\<close>

definition onQr :: "string \<Rightarrow> string \<Rightarrow> state \<Rightarrow> state" where
  "onQr i code st =
     (case map_of (vendors st) i of
        None \<Rightarrow> st
      | Some v \<Rightarrow>
          saveVendorsToFile (updateMetrics
            (st\<lparr>vendors := AList.update i (v\<lparr>qr := Some code, status := pending\<rparr>) (vendors st)\<rparr>)))"

definition onReady :: "string \<Rightarrow> string \<Rightarrow> string \<Rightarrow> nat \<Rightarrow> state \<Rightarrow> state" where
  "onReady i phone assignedPhoneNumber now st =
     (case map_of (vendors st) i of
        None \<Rightarrow> st
      | Some v \<Rightarrow>
          let st1 = saveVendorsToFile (updateMetrics
                (st\<lparr>vendors := AList.update i
                      (v\<lparr>status := connected, phoneNumber := assignedPhoneNumber, qr := None,
                         lastConnection := Some (Date now), reconnectAttempts := 0\<rparr>) (vendors st)\<rparr>))
          in if assignedPhoneNumber \<noteq> phone
             then st1\<lparr>warnings := warnings st1 @ [(phone, assignedPhoneNumber)]\<rparr>
             else st1)"

definition onDisconnect :: "string \<Rightarrow> state \<Rightarrow> state" where
  "onDisconnect i st =
     (case map_of (vendors st) i of
        None \<Rightarrow> st
      | Some v \<Rightarrow>
          saveVendorsToFile (updateMetrics
            (st\<lparr>vendors := AList.update i (v\<lparr>status := disconnected\<rparr>) (vendors st)\<rparr>)))"

definition onConnectionFailure :: "string \<Rightarrow> state \<Rightarrow> state" where
  "onConnectionFailure i st =
     (case map_of (vendors st) i of
        None \<Rightarrow> st
      | Some v \<Rightarrow>
          saveVendorsToFile (cleanupVendor i (updateMetrics
            (st\<lparr>vendors := AList.update i (v\<lparr>status := disconnected\<rparr>) (vendors st)\<rparr>))))"

text \<open>\<^verbatim>\<open>DELETE /vendors/:id\<close> (lines 289-293) and \<^verbatim>\<open>GET /vendors\<close>
  (lines 295-298) of variant 1.\<close>

definition deleteVendor :: "string \<Rightarrow> state \<Rightarrow> response \<times> state" where
  "deleteVendor i st = (Success, cleanupVendor i st)"

definition listVendors :: "state \<Rightarrow> persisted list" where
  "listVendors st = loadVendorsFromFile st"

text \<open>\<^verbatim>\<open>GET /health\<close> (lines 365-373 and 935-943), without the figures of
  the runtime: the metrics, \<^verbatim>\<open>vendors.size\<close> and the ports in use.\<close>

definition health :: "state \<Rightarrow> ConnectionMetrics \<times> nat \<times> int list" where
  "health st = (metrics st, length (vendors st), usedPorts st)"

section \<open>Variant 1: messaging dispatch and the retry sweep\<close>

text \<open>The outcome of \<^verbatim>\<open>provider.sendText\<close> is a parameter: \<open>None\<close> when the
  call returns, \<open>Some m\<close> when it throws an error with message \<open>m\<close>.\<close>

type_synonym sendText = "nat \<Rightarrow> string \<Rightarrow> string \<Rightarrow> string option"

text \<open>\<^verbatim>\<open>POST /messages/send\<close> of variant 1 (lines 310-331).\<close>

definition sendMessage ::
    "sendText \<Rightarrow> string \<Rightarrow> string \<Rightarrow> string \<Rightarrow> bool \<Rightarrow> nat \<Rightarrow> state \<Rightarrow> response \<times> state" where
  "sendMessage snd_text vid targetNumber msg isGroup now st =
     (case (List.find (\<lambda>v. p_id v = vid) (loadVendorsFromFile st), map_of (vendors st) vid) of
        (Some storedVendor, Some v) \<Rightarrow>
          if status v \<noteq> connected then (NotFoundOrNotConnected, st)
          else
            let target = targetNumber @ (if isGroup then ''@g.us'' else ''@s.whatsapp.net'');
                st1 = st\<lparr>sendAttempts := sendAttempts st @ [(provider v, target, msg)]\<rparr>
            in (case snd_text (provider v) target msg of
                  Some err \<Rightarrow> (FailedToSend, st1)
                | None \<Rightarrow>
                    (case saveConversation vid targetNumber msg bot now st1 of
                       Inl e \<Rightarrow> (FailedToSend, st1)
                     | Inr st2 \<Rightarrow> (Success, st2)))
      | _ \<Rightarrow> (NotFoundOrNotConnected, st))"

text \<open>\<^verbatim>\<open>POST /messages/broadcast\<close> (lines 333-350; the prototype has the same
  loop at lines 154-171 of \<^verbatim>\<open>part_001\<close>).  The loop runs over the entries of
  the map; its body is a \<^verbatim>\<open>try\<close> whose \<^verbatim>\<open>catch\<close> pushes the failure.\<close>

fun broadcastLoop ::
    "sendText \<Rightarrow> string \<Rightarrow> string \<Rightarrow> nat \<Rightarrow> (string \<times> vendor) list \<Rightarrow>
     send_result list \<times> state \<Rightarrow> send_result list \<times> state" where
  "broadcastLoop snd_text targetNumber msg now [] (results, st) = (results, st)"
| "broadcastLoop snd_text targetNumber msg now ((i, v) # rest) (results, st) =
     (if status v = connected
      then
        let target = targetNumber @ ''@s.whatsapp.net'';
            st1 = st\<lparr>sendAttempts := sendAttempts st @ [(provider v, target, msg)]\<rparr>
        in (case snd_text (provider v) target msg of
              Some err \<Rightarrow>
                broadcastLoop snd_text targetNumber msg now rest
                  (results @ [\<lparr>r_vendorId = i, r_success = False, r_error = Some err\<rparr>], st1)
            | None \<Rightarrow>
                (case saveConversation i targetNumber msg bot now st1 of
                   Inl e \<Rightarrow>
                     broadcastLoop snd_text targetNumber msg now rest
                       (results @ [\<lparr>r_vendorId = i, r_success = False, r_error = Some (message e)\<rparr>], st1)
                 | Inr st2 \<Rightarrow>
                     broadcastLoop snd_text targetNumber msg now rest
                       (results @ [\<lparr>r_vendorId = i, r_success = True, r_error = None\<rparr>], st2)))
      else broadcastLoop snd_text targetNumber msg now rest (results, st))"

definition broadcast ::
    "sendText \<Rightarrow> string \<Rightarrow> string \<Rightarrow> nat \<Rightarrow> state \<Rightarrow> send_result list \<times> state" where
  "broadcast snd_text targetNumber msg now st =
     broadcastLoop snd_text targetNumber msg now (vendors st) ([], st)"

text \<open>The retry sweep (lines 415-424).  The array \<^verbatim>\<open>disconnectedVendors\<close> holds
  the vendor objects that pass the filter; an object is identified with its
  entry of the map, so the loop body writes the entry back under its key.\<close>

definition retryEligible :: "vendor \<Rightarrow> bool" where
  "retryEligible v = (status v = disconnected \<and> reconnectAttempts v < 3)"

definition retried :: "vendor \<Rightarrow> vendor" where
  "retried v = v\<lparr>reconnectAttempts := reconnectAttempts v + 1, status := pending\<rparr>"

fun retryLoop :: "(string \<times> vendor) list \<Rightarrow> state \<Rightarrow> state" where
  "retryLoop [] st = st"
| "retryLoop ((i, v) # rest) st =
     retryLoop rest (updateMetrics (st\<lparr>vendors := AList.update i (retried v) (vendors st)\<rparr>))"

definition retrySweep :: "state \<Rightarrow> state" where
  "retrySweep st = retryLoop (filter (\<lambda>(i, v). retryEligible v) (vendors st)) st"

section \<open>Variant 2\<close>

text \<open>\<^verbatim>\<open>setupProviderEvents\<close> (lines 612-692).  A handler closes over the
  vendor's id \<open>i\<close> and over the variable \<^verbatim>\<open>qrRefreshInterval\<close> of its call,
  which is named by the handle \<open>p\<close> of the provider the call subscribes to.
  Clearing and setting the interval in \<^verbatim>\<open>qr\<close> leaves exactly one live
  interval for \<open>p\<close>; its callback closes over the vendor that this run of
  the handler looked up.\<close>

definition onQr2 :: "nat \<Rightarrow> string \<Rightarrow> string \<Rightarrow> state \<Rightarrow> state" where
  "onQr2 p i code st =
     (let st1 = (case map_of (vendors st) i of
                   None \<Rightarrow> st
                 | Some v \<Rightarrow>
                     saveVendorsToFile2 (updateMetrics
                       (st\<lparr>vendors := AList.update i (v\<lparr>qr := Some code, status := pending\<rparr>)
                                       (vendors st)\<rparr>)))
      in st1\<lparr>intervals := removeAll p (intervals st1) @ [p],
             closures := AList.update p
               (i, case map_of (vendors st) i of None \<Rightarrow> Undefined | Some v \<Rightarrow> Attached)
               (closures st1)\<rparr>)"

definition onReady2 :: "nat \<Rightarrow> string \<Rightarrow> string \<Rightarrow> nat \<Rightarrow> state \<Rightarrow> state" where
  "onReady2 p i phone now st =
     (let st1 = st\<lparr>intervals := removeAll p (intervals st)\<rparr>
      in case map_of (vendors st1) i of
           None \<Rightarrow> st1
         | Some v \<Rightarrow>
             saveVendorsToFile2 (updateMetrics
               (st1\<lparr>vendors := AList.update i
                     (v\<lparr>status := connected, phoneNumber := phone, qr := None,
                        lastConnection := Some (Date now), reconnectAttempts := 0\<rparr>) (vendors st1)\<rparr>)))"

definition onDisconnect2 :: "nat \<Rightarrow> string \<Rightarrow> state \<Rightarrow> state" where
  "onDisconnect2 p i st =
     (let st1 = st\<lparr>intervals := removeAll p (intervals st)\<rparr>
      in case map_of (vendors st1) i of
           None \<Rightarrow> st1
         | Some v \<Rightarrow>
             saveVendorsToFile2 (updateMetrics
               (st1\<lparr>vendors := AList.update i (v\<lparr>status := disconnected\<rparr>) (vendors st1)\<rparr>)))"

definition onConnectionFailure2 :: "nat \<Rightarrow> string \<Rightarrow> state \<Rightarrow> state" where
  "onConnectionFailure2 p i st =
     (let st1 = st\<lparr>intervals := removeAll p (intervals st)\<rparr>
      in case map_of (vendors st1) i of
           None \<Rightarrow> st1
         | Some v \<Rightarrow>
             cleanupVendor2 i (updateMetrics
               (st1\<lparr>vendors := AList.update i (v\<lparr>status := disconnected\<rparr>) (vendors st1)\<rparr>)))"

text \<open>\<^verbatim>\<open>vendor?.port || getAvailablePort()\<close> (lines 631 and 646), for a captured
  vendor that is defined: the port when it is truthy, a fresh one otherwise.\<close>

definition portOrAvailable :: "int \<Rightarrow> vendor \<Rightarrow> state \<Rightarrow> error + int \<times> state" where
  "portOrAvailable bp v st =
     (if port v \<noteq> 0 then Inr (port v, st)
      else case getAvailablePort bp (usedPorts st) of
             Inl e \<Rightarrow> Inl e
           | Inr (p, used') \<Rightarrow> Inr (p, st\<lparr>usedPorts := used'\<rparr>))"

text \<open>The value, now, of the vendor object that the callback of provider
  \<open>p\<close>'s interval closes over, when that callback belongs to id \<open>i\<close>.\<close>

definition capturedVendor :: "state \<Rightarrow> nat \<Rightarrow> string \<Rightarrow> vendor option" where
  "capturedVendor st p i =
     (case map_of (closures st) p of
        None \<Rightarrow> None
      | Some (k, c) \<Rightarrow>
          if k = i
          then (case c of
                  Undefined \<Rightarrow> None
                | Attached \<Rightarrow> map_of (vendors st) i
                | Detached v \<Rightarrow> Some v)
          else None)"

text \<open>The callback of the code-refresh interval (lines 628-650), for a
  captured vendor that is defined: \<open>captured\<close> is the value of that object
  when the interval fires.  The callback of a handler whose lookup found no
  vendor (it would insert an entry that has only a provider and a status) is
  not modelled.  An exception of \<^verbatim>\<open>getAvailablePort\<close> ends the callback in its
  \<^verbatim>\<open>catch\<close>.  Neither the callback nor the cleanup clears the interval.\<close>

definition qrRefresh :: "int \<Rightarrow> string \<Rightarrow> vendor \<Rightarrow> state \<Rightarrow> state" where
  "qrRefresh bp i captured st =
     (let st1 = cleanupVendor2 i st
      in case portOrAvailable bp captured st1 of
           Inl e \<Rightarrow> st1
         | Inr (prt, st2) \<Rightarrow>
             let pr = providers st2;
                 st3 = st2\<lparr>providers := pr + 1\<rparr>;
                 st4 = (detach i st3)
                         \<lparr>vendors := AList.update i (captured\<lparr>provider := pr, status := pending\<rparr>)
                                       (vendors st3)\<rparr>
             in (case portOrAvailable bp captured st4 of
                   Inl e \<Rightarrow> st4
                 | Inr (prt2, st5) \<Rightarrow> st5\<lparr>httpServers := httpServers st5 @ [prt2]\<rparr>))"

text \<open>\<^verbatim>\<open>initializeExistingVendors\<close> (lines 695-725).\<close>

fun restoreLoop :: "int \<Rightarrow> persisted list \<Rightarrow> state \<Rightarrow> state" where
  "restoreLoop bp [] st = st"
| "restoreLoop bp (s # rest) st =
     (if p_status s = connected
      then (case getAvailablePort bp (usedPorts st) of
              Inl e \<Rightarrow> restoreLoop bp rest st
            | Inr (prt, used') \<Rightarrow>
                let pr = providers st;
                    st1 = st\<lparr>usedPorts := used', providers := pr + 1\<rparr>;
                    st2 = (detach (p_id s) st1)\<lparr>vendors := AList.update (p_id s)
                             \<lparr>vendorId = p_id s, provider = pr, phoneNumber = p_phoneNumber s,
                              name = p_name s, status = p_status s, qr = None,
                              lastConnection = map_option IsoString (p_lastConnection s),
                              reconnectAttempts = 0,
                              port = prt, assignedNumber = p_assignedNumber s\<rparr> (vendors st1)\<rparr>
                in restoreLoop bp rest (st2\<lparr>httpServers := httpServers st2 @ [prt]\<rparr>))
      else restoreLoop bp rest st)"

definition initializeExistingVendors :: "int \<Rightarrow> state \<Rightarrow> state" where
  "initializeExistingVendors bp st = restoreLoop bp (loadVendorsFromFile st) st"

text \<open>\<^verbatim>\<open>POST /vendors/register\<close> of variant 2 (lines 728-786).\<close>

definition registerVendor2 :: "int \<Rightarrow> string \<Rightarrow> string \<Rightarrow> string \<Rightarrow> state \<Rightarrow> response \<times> state" where
  "registerVendor2 bp nm phone newId st =
     (if int (length (vendors st)) \<ge> MAX_CONCURRENT_CONNECTIONS then (MaximumConnectionsReached, st)
      else if nm = [] \<or> phone = [] then (NameAndPhoneRequired, st)
      else if alreadyRegistered phone st then (PhoneAlreadyRegistered, st)
      else case getAvailablePort bp (usedPorts st) of
             Inl e \<Rightarrow> (FailedToInitialize, st)
           | Inr (prt, used') \<Rightarrow>
               let pr = providers st;
                   st1 = st\<lparr>usedPorts := used', providers := pr + 1\<rparr>;
                   st2 = (detach newId st1)\<lparr>vendors := AList.update newId
                            \<lparr>vendorId = newId, provider = pr, phoneNumber = [], name = nm,
                             status = pending, qr = None, lastConnection = None,
                             reconnectAttempts = 0, port = prt,
                             assignedNumber = Some phone\<rparr> (vendors st1)\<rparr>;
                   st3 = st2\<lparr>metrics := (metrics st2)
                            \<lparr>totalConnections := totalConnections (metrics st2) + 1\<rparr>\<rparr>;
                   st4 = saveVendorsToFile2 (updateMetrics st3)
               in (Registered newId prt, st4\<lparr>httpServers := httpServers st4 @ [prt]\<rparr>))"

text \<open>\<^verbatim>\<open>DELETE /vendors/:id\<close> (lines 799-815) and \<^verbatim>\<open>PUT /vendors/:id\<close>
  (lines 818-853) of variant 2.\<close>

definition deleteVendor2 :: "string \<Rightarrow> state \<Rightarrow> response \<times> state" where
  "deleteVendor2 i st =
     (case map_of (vendors st) i of
        None \<Rightarrow> (VendorNotFound, st)
      | Some v \<Rightarrow> (Success, saveVendorsToFile2 (cleanupVendor2 i st)))"

definition updateVendor2 :: "string \<Rightarrow> string \<Rightarrow> string \<Rightarrow> state \<Rightarrow> response \<times> state" where
  "updateVendor2 i nm phone st =
     (case map_of (vendors st) i of
        None \<Rightarrow> (VendorNotFound, st)
      | Some v \<Rightarrow>
          if phone \<noteq> [] \<and> Some phone \<noteq> assignedNumber v then (PhoneCannotBeUpdated, st)
          else (Success,
                saveVendorsToFile2
                  ((detach i st)
                     \<lparr>vendors := AList.update i (v\<lparr>name := (if nm \<noteq> [] then nm else name v)\<rparr>)
                                   (vendors st)\<rparr>)))"

text \<open>\<^verbatim>\<open>POST /messages/send\<close> of variant 2 (lines 855-873).\<close>

definition sendMessage2 ::
    "sendText \<Rightarrow> string \<Rightarrow> string \<Rightarrow> string \<Rightarrow> bool \<Rightarrow> nat \<Rightarrow> state \<Rightarrow> response \<times> state" where
  "sendMessage2 snd_text vid targetNumber msg isGroup now st =
     (case map_of (vendors st) vid of
        None \<Rightarrow> (NotFoundOrNotConnected, st)
      | Some v \<Rightarrow>
          if status v \<noteq> connected then (NotFoundOrNotConnected, st)
          else
            let target = targetNumber @ (if isGroup then ''@g.us'' else ''@s.whatsapp.net'');
                st1 = st\<lparr>sendAttempts := sendAttempts st @ [(provider v, target, msg)]\<rparr>
            in (case snd_text (provider v) target msg of
                  Some err \<Rightarrow> (FailedToSend, st1)
                | None \<Rightarrow>
                    (case saveConversation vid targetNumber msg bot now st1 of
                       Inl e \<Rightarrow> (FailedToSend, st1)
                     | Inr st2 \<Rightarrow> (Success, st2))))"

text \<open>\<^verbatim>\<open>GET /vendors/\<close> of variant 2 (lines 875-906): the stored list, into
  which each in-memory vendor is written at the first index holding its id,
  or pushed when there is none.\<close>

fun findIndex :: "('a \<Rightarrow> bool) \<Rightarrow> 'a list \<Rightarrow> nat option" where
  "findIndex P [] = None"
| "findIndex P (x # xs) = (if P x then Some 0 else map_option Suc (findIndex P xs))"

definition mergeActive :: "persisted list \<Rightarrow> persisted \<Rightarrow> persisted list" where
  "mergeActive allVendors active =
     (case findIndex (\<lambda>stored. p_id stored = p_id active) allVendors of
        Some index \<Rightarrow> allVendors[index := active]
      | None \<Rightarrow> allVendors @ [active])"

definition listVendors2 :: "state \<Rightarrow> persisted list" where
  "listVendors2 st =
     foldl mergeActive (loadVendorsFromFile st) (map toPersisted2 (map snd (vendors st)))"

text \<open>The retry sweep of variant 2 (lines 952-962).\<close>

fun retryLoop2 :: "(string \<times> vendor) list \<Rightarrow> state \<Rightarrow> state" where
  "retryLoop2 [] st = st"
| "retryLoop2 ((i, v) # rest) st =
     retryLoop2 rest (saveVendorsToFile2 (updateMetrics
       (st\<lparr>vendors := AList.update i (retried v) (vendors st)\<rparr>)))"

definition retrySweep2 :: "state \<Rightarrow> state" where
  "retrySweep2 st = retryLoop2 (filter (\<lambda>(i, v). retryEligible v) (vendors st)) st"

section \<open>Runs\<close>

text \<open>Everything that changes the state of variant 1: the requests, the
  events of the providers and the timer of the sweep.\<close>

datatype event =
    Register string string string
  | Qr string string
  | Ready string string string nat
  | Disconnect string
  | ConnectionFailure string
  | Delete string
  | Send sendText string string string bool nat
  | Broadcast sendText string string nat
  | RetrySweep

fun step :: "int \<Rightarrow> state \<Rightarrow> event \<Rightarrow> state" where
  "step bp st (Register nm phone newId) = snd (registerVendor bp nm phone newId st)"
| "step bp st (Qr i code) = onQr i code st"
| "step bp st (Ready i phone confirmed now) = onReady i phone confirmed now st"
| "step bp st (Disconnect i) = onDisconnect i st"
| "step bp st (ConnectionFailure i) = onConnectionFailure i st"
| "step bp st (Delete i) = snd (deleteVendor i st)"
| "step bp st (Send f vid target msg isGroup now) = snd (sendMessage f vid target msg isGroup now st)"
| "step bp st (Broadcast f target msg now) = snd (broadcast f target msg now st)"
| "step bp st RetrySweep = retrySweep st"

definition run :: "int \<Rightarrow> event list \<Rightarrow> state \<Rightarrow> state" where
  "run bp evs st = foldl (step bp) st evs"

text \<open>The same for variant 2.  An interval fires only while it is live, and
  its callback then sees the vendor object it closes over: \<open>QrRefresh2 p i v\<close>
  is the firing of provider \<open>p\<close>'s interval for id \<open>i\<close> at a moment when that
  object has the value \<open>v\<close>, and is no event in any other state.\<close>

datatype event2 =
    Register2 string string string
  | Qr2 nat string string
  | Ready2 nat string string nat
  | Disconnect2 nat string
  | ConnectionFailure2 nat string
  | QrRefresh2 nat string vendor
  | Delete2 string
  | Update2 string string string
  | Send2 sendText string string string bool nat
  | Initialize2
  | RetrySweep2

fun step2 :: "int \<Rightarrow> state \<Rightarrow> event2 \<Rightarrow> state" where
  "step2 bp st (Register2 nm phone newId) = snd (registerVendor2 bp nm phone newId st)"
| "step2 bp st (Qr2 p i code) = onQr2 p i code st"
| "step2 bp st (Ready2 p i phone now) = onReady2 p i phone now st"
| "step2 bp st (Disconnect2 p i) = onDisconnect2 p i st"
| "step2 bp st (ConnectionFailure2 p i) = onConnectionFailure2 p i st"
| "step2 bp st (QrRefresh2 p i captured) =
     (if p \<in> set (intervals st) \<and> capturedVendor st p i = Some captured
      then qrRefresh bp i captured st else st)"
| "step2 bp st (Delete2 i) = snd (deleteVendor2 i st)"
| "step2 bp st (Update2 i nm phone) = snd (updateVendor2 i nm phone st)"
| "step2 bp st (Send2 f vid target msg isGroup now) = snd (sendMessage2 f vid target msg isGroup now st)"
| "step2 bp st Initialize2 = initializeExistingVendors bp st"
| "step2 bp st RetrySweep2 = retrySweep2 st"

definition run2 :: "int \<Rightarrow> event2 list \<Rightarrow> state \<Rightarrow> state" where
  "run2 bp evs st = foldl (step2 bp) st evs"

section \<open>Predicates on states and events\<close>

text \<open>The keys of the registry are distinct (it is a \<^verbatim>\<open>Map\<close>), and no vendor
  object, in the registry or held by a refresh callback, has more than 3
  reconnect attempts.\<close>

definition registryInvariant :: "state \<Rightarrow> bool" where
  "registryInvariant st =
     (distinct (map fst (vendors st)) \<and>
      list_all (\<lambda>e. reconnectAttempts (snd e) \<le> 3) (vendors st) \<and>
      list_all (\<lambda>(p, k, c). case c of Detached v \<Rightarrow> reconnectAttempts v \<le> 3 | _ \<Rightarrow> True)
        (closures st))"



section \<open>Sample states\<close>

text \<open>States reached from a fresh process with \<^verbatim>\<open>PORT\<close> unset (base port 3008),
  used as concrete inputs below.\<close>

definition fresh :: state where
  "fresh = initial Absent (\<lambda>_. NoConversation)"

definition pendingVendor :: vendor where
  "pendingVendor =
     \<lparr>vendorId = ''a'', provider = 0, phoneNumber = [], name = ''A'', status = pending,
      qr = Some ''code'', lastConnection = None, reconnectAttempts = 0, port = 3108,
      assignedNumber = Some ''521''\<rparr>"

definition pendingState :: state where
  "pendingState = run 3008 [Register ''A'' ''521'' ''a'', Qr ''a'' ''code''] fresh"

definition pendingState2 :: state where
  "pendingState2 = run2 3008 [Register2 ''A'' ''521'' ''a'', Qr2 0 ''a'' ''code''] fresh"

definition disconnectedVendor :: vendor where
  "disconnectedVendor =
     \<lparr>vendorId = ''a'', provider = 0, phoneNumber = ''521'', name = ''A'', status = disconnected,
      qr = None, lastConnection = Some (Date 7), reconnectAttempts = 0, port = 3108,
      assignedNumber = Some ''521''\<rparr>"

definition disconnectedState :: state where
  "disconnectedState =
     run 3008 [Register ''A'' ''521'' ''a'', Ready ''a'' ''521'' ''521'' 7, Disconnect ''a''] fresh"

text \<open>Variant 2 after a code refresh: the interval of the first subscription
  has fired, the new provider has issued a code of its own.  And variant 2
  with the vendor connected at time 7.\<close>

definition refreshedState :: state where
  "refreshedState =
     run2 3008 [Register2 ''A'' ''521'' ''a'', Qr2 0 ''a'' ''code'',
                QrRefresh2 0 ''a'' pendingVendor, Qr2 1 ''a'' ''code2''] fresh"

definition connectedState2 :: state where
  "connectedState2 =
     run2 3008 [Register2 ''A'' ''521'' ''a'', Qr2 0 ''a'' ''code'',
                Ready2 0 ''a'' ''521'' 7] fresh"

text \<open>A restart: the file of the previous run lists a connected vendor \<open>a\<close>
  and a pending vendor \<open>c\<close>; start-up restores \<open>a\<close> alone, on a new port.\<close>

definition storedA :: persisted where
  "storedA =
     \<lparr>p_id = ''a'', p_name = ''A'', p_phoneNumber = ''521'', p_assignedNumber = Some ''521'',
      p_status = connected, p_lastConnection = Some ''2024-05-01T10:00:00.000Z'',
      p_port = Some 3110\<rparr>"

definition storedC :: persisted where
  "storedC =
     \<lparr>p_id = ''c'', p_name = ''C'', p_phoneNumber = [], p_assignedNumber = Some ''523'',
      p_status = pending, p_lastConnection = None, p_port = Some 3109\<rparr>"

definition restartedState :: state where
  "restartedState =
     run2 3008 [Initialize2] (initial (Stored [storedA, storedC]) (\<lambda>_. NoConversation))"

text \<open>A registry at capacity: 70 registrations in a fresh process, the
  \<open>k\<close>-th with an id of \<open>k + 1\<close> letters and a number of \<open>k + 1\<close> digits.\<close>

definition nthId :: "nat \<Rightarrow> string" where
  "nthId k = replicate (Suc k) CHR ''v''"

definition nthPhone :: "nat \<Rightarrow> string" where
  "nthPhone k = replicate (Suc k) CHR ''5''"

definition registrations :: "nat \<Rightarrow> event list" where
  "registrations n = map (\<lambda>k. Register ''N'' (nthPhone k) (nthId k)) [0..<n]"

definition capacityState :: state where
  "capacityState = run 3008 (registrations 70) fresh"

text \<open>Three connected vendors, and a transport on which the sends of the
  second vendor's provider time out.\<close>

definition threeConnected :: state where
  "threeConnected =
     run 3008 [Register ''A'' ''521'' ''a'', Register ''B'' ''522'' ''b'',
               Register ''C'' ''523'' ''c'', Ready ''a'' ''521'' ''521'' 7,
               Ready ''b'' ''522'' ''522'' 8, Ready ''c'' ''523'' ''523'' 9] fresh"

definition secondTimesOut :: sendText where
  "secondTimesOut p target msg = (if p = 1 then Some ''timed out'' else None)"

section \<open>Auxiliary facts\<close>

lemmas port_consts = PORT_RANGE_START_def PORT_RANGE_END_def VENDOR_BASE_PORT_def
  MAX_CONCURRENT_CONNECTIONS_def

lemma vendors_frame [simp]:
  "vendors (updateMetrics st) = vendors st"
  "vendors (saveVendorsToFile st) = vendors st"
  "vendors (saveVendorsToFile2 st) = vendors st"
  by (simp_all add: updateMetrics_def saveVendorsToFile_def saveVendorsToFile2_def)

lemma usedPorts_frame [simp]:
  "usedPorts (updateMetrics st) = usedPorts st"
  "usedPorts (saveVendorsToFile st) = usedPorts st"
  "usedPorts (saveVendorsToFile2 st) = usedPorts st"
  by (simp_all add: updateMetrics_def saveVendorsToFile_def saveVendorsToFile2_def)

lemma intervals_frame [simp]:
  "intervals (updateMetrics st) = intervals st"
  "intervals (saveVendorsToFile st) = intervals st"
  "intervals (saveVendorsToFile2 st) = intervals st"
  by (simp_all add: updateMetrics_def saveVendorsToFile_def saveVendorsToFile2_def)

lemma providers_frame [simp]:
  "providers (updateMetrics st) = providers st"
  "providers (saveVendorsToFile st) = providers st"
  "providers (saveVendorsToFile2 st) = providers st"
  by (simp_all add: updateMetrics_def saveVendorsToFile_def saveVendorsToFile2_def)

lemma httpServers_frame [simp]:
  "httpServers (updateMetrics st) = httpServers st"
  "httpServers (saveVendorsToFile st) = httpServers st"
  "httpServers (saveVendorsToFile2 st) = httpServers st"
  by (simp_all add: updateMetrics_def saveVendorsToFile_def saveVendorsToFile2_def)

lemma closures_frame [simp]:
  "closures (updateMetrics st) = closures st"
  "closures (saveVendorsToFile st) = closures st"
  "closures (saveVendorsToFile2 st) = closures st"
  by (simp_all add: updateMetrics_def saveVendorsToFile_def saveVendorsToFile2_def)

lemma detach_frame [simp]:
  "vendors (detach i st) = vendors st"
  "usedPorts (detach i st) = usedPorts st"
  "metrics (detach i st) = metrics st"
  "vendorsFile (detach i st) = vendorsFile st"
  "conversations (detach i st) = conversations st"
  "providers (detach i st) = providers st"
  "intervals (detach i st) = intervals st"
  "httpServers (detach i st) = httpServers st"
  "warnings (detach i st) = warnings st"
  "sendAttempts (detach i st) = sendAttempts st"
  by (simp_all add: detach_def)

lemma metrics_save [simp]:
  "metrics (saveVendorsToFile st) = metrics st"
  "metrics (saveVendorsToFile2 st) = metrics st"
  by (simp_all add: saveVendorsToFile_def saveVendorsToFile2_def)

lemma vendorsFile_updateMetrics [simp]: "vendorsFile (updateMetrics st) = vendorsFile st"
  by (simp add: updateMetrics_def)

text \<open>The sample states, written out.\<close>

lemma getAvailablePort_empty: "getAvailablePort 3008 [] = Inr (3108, [3108])"
  by (simp add: getAvailablePort_def scanPorts.simps Set_add_def port_consts)

lemmas sample_defs = fresh_def run_def run2_def initial_def registerVendor_def registerVendor2_def
  alreadyRegistered_def loadVendorsFromFile_def getAvailablePort_empty Let_def updateMetrics_def
  saveVendorsToFile_def saveVendorsToFile2_def toPersisted_def toPersisted2_def
  onQr_def onQr2_def onReady_def onReady2_def onDisconnect_def detach_def
  MAX_CONCURRENT_CONNECTIONS_def

lemma pendingState_eq:
  "pendingState =
     \<lparr>vendors = [(''a'', pendingVendor)], usedPorts = [3108],
      metrics = \<lparr>totalConnections = 1, activeConnections = 0,
                 pendingConnections = 1, failedConnections = 0\<rparr>,
      vendorsFile = Stored [toPersisted pendingVendor], conversations = (\<lambda>_. NoConversation),
      providers = 1, intervals = [], closures = [], httpServers = [3108], warnings = [], sendAttempts = []\<rparr>"
  by (simp add: pendingState_def pendingVendor_def sample_defs)

lemma pendingState2_eq:
  "pendingState2 =
     \<lparr>vendors = [(''a'', pendingVendor)], usedPorts = [3108],
      metrics = \<lparr>totalConnections = 1, activeConnections = 0,
                 pendingConnections = 1, failedConnections = 0\<rparr>,
      vendorsFile = Stored [toPersisted2 pendingVendor], conversations = (\<lambda>_. NoConversation),
      providers = 1, intervals = [0], closures = [(0, ''a'', Attached)], httpServers = [3108],
      warnings = [], sendAttempts = []\<rparr>"
  by (simp add: pendingState2_def pendingVendor_def sample_defs)

lemma disconnectedState_eq:
  "disconnectedState =
     \<lparr>vendors = [(''a'', disconnectedVendor)], usedPorts = [3108],
      metrics = \<lparr>totalConnections = 1, activeConnections = 0,
                 pendingConnections = 0, failedConnections = 0\<rparr>,
      vendorsFile = Stored [toPersisted disconnectedVendor], conversations = (\<lambda>_. NoConversation),
      providers = 1, intervals = [], closures = [], httpServers = [3108], warnings = [], sendAttempts = []\<rparr>"
  by (simp add: disconnectedState_def disconnectedVendor_def sample_defs)

lemma getAvailablePort_one: "getAvailablePort 3008 [3108] = Inr (3109, [3108, 3109])"
  by (simp add: getAvailablePort_def scanPorts.simps Set_add_def port_consts)

lemma restartedState_eq:
  "restartedState =
     \<lparr>vendors = [(''a'', \<lparr>vendorId = ''a'', provider = 0, phoneNumber = ''521'', name = ''A'',
                           status = connected, qr = None,
                           lastConnection = Some (IsoString ''2024-05-01T10:00:00.000Z''),
                           reconnectAttempts = 0, port = 3108, assignedNumber = Some ''521''\<rparr>)],
      usedPorts = [3108],
      metrics = \<lparr>totalConnections = 0, activeConnections = 0,
                 pendingConnections = 0, failedConnections = 0\<rparr>,
      vendorsFile = Stored [storedA, storedC], conversations = (\<lambda>_. NoConversation),
      providers = 1, intervals = [], closures = [], httpServers = [3108], warnings = [], sendAttempts = []\<rparr>"
  by (simp add: restartedState_def storedA_def storedC_def run2_def initial_def
      initializeExistingVendors_def loadVendorsFromFile_def getAvailablePort_empty
      getAvailablePort_one detach_def Let_def)

lemma getAvailablePort_two: "getAvailablePort 3008 [3108, 3109] = Inr (3110, [3108, 3109, 3110])"
  by (simp add: getAvailablePort_def scanPorts.simps Set_add_def port_consts)

lemma threeConnected_eq:
  "vendors threeConnected =
     [(''a'', \<lparr>vendorId = ''a'', provider = 0, phoneNumber = ''521'', name = ''A'',
              status = connected, qr = None, lastConnection = Some (Date 7), reconnectAttempts = 0,
              port = 3108, assignedNumber = Some ''521''\<rparr>),
      (''b'', \<lparr>vendorId = ''b'', provider = 1, phoneNumber = ''522'', name = ''B'',
              status = connected, qr = None, lastConnection = Some (Date 8), reconnectAttempts = 0,
              port = 3109, assignedNumber = Some ''522''\<rparr>),
      (''c'', \<lparr>vendorId = ''c'', provider = 2, phoneNumber = ''523'', name = ''C'',
              status = connected, qr = None, lastConnection = Some (Date 9), reconnectAttempts = 0,
              port = 3110, assignedNumber = Some ''523''\<rparr>)]"
  "conversations threeConnected = (\<lambda>_. NoConversation)"
  "sendAttempts threeConnected = []"
  by (simp_all add: threeConnected_def sample_defs getAvailablePort_one getAvailablePort_two)


lemma connectedState2_eq:
  "connectedState2 =
     \<lparr>vendors = [(''a'', pendingVendor\<lparr>status := connected, phoneNumber := ''521'', qr := None,
                          lastConnection := Some (Date 7)\<rparr>)],
      usedPorts = [3108],
      metrics = \<lparr>totalConnections = 1, activeConnections = 1,
                 pendingConnections = 0, failedConnections = 0\<rparr>,
      vendorsFile = Stored [toPersisted2 (pendingVendor\<lparr>status := connected, phoneNumber := ''521'',
                              qr := None, lastConnection := Some (Date 7)\<rparr>)],
      conversations = (\<lambda>_. NoConversation),
      providers = 1, intervals = [], closures = [(0, ''a'', Attached)], httpServers = [3108],
      warnings = [], sendAttempts = []\<rparr>"
  by (simp add: connectedState2_def pendingVendor_def sample_defs)

lemma refresh_pendingState2:
  "step2 3008 pendingState2 (QrRefresh2 0 ''a'' pendingVendor) =
     \<lparr>vendors = [(''a'', pendingVendor\<lparr>provider := 1\<rparr>)], usedPorts = [],
      metrics = \<lparr>totalConnections = 0, activeConnections = 0,
                 pendingConnections = 0, failedConnections = 0\<rparr>,
      vendorsFile = Stored [], conversations = (\<lambda>_. NoConversation),
      providers = 2, intervals = [0], closures = [(0, ''a'', Detached pendingVendor)],
      httpServers = [3108, 3108], warnings = [], sendAttempts = []\<rparr>"
  by (simp add: pendingState2_eq capturedVendor_def qrRefresh_def cleanupVendor2_def
      portOrAvailable_def Set_delete_def updateMetrics_def saveVendorsToFile2_def detach_def
      pendingVendor_def Let_def)

lemma refreshedState_eq:
  "refreshedState =
     \<lparr>vendors = [(''a'', pendingVendor\<lparr>provider := 1, qr := Some ''code2''\<rparr>)], usedPorts = [],
      metrics = \<lparr>totalConnections = 0, activeConnections = 0,
                 pendingConnections = 1, failedConnections = 0\<rparr>,
      vendorsFile = Stored [toPersisted2 (pendingVendor\<lparr>provider := 1, qr := Some ''code2''\<rparr>)],
      conversations = (\<lambda>_. NoConversation),
      providers = 2, intervals = [0, 1],
      closures = [(0, ''a'', Detached pendingVendor), (1, ''a'', Attached)],
      httpServers = [3108, 3108], warnings = [], sendAttempts = []\<rparr>"
proof -
  have "refreshedState =
      onQr2 1 ''a'' ''code2'' (step2 3008 pendingState2 (QrRefresh2 0 ''a'' pendingVendor))"
    by (simp add: refreshedState_def pendingState2_def run2_def)
  then show ?thesis
    unfolding refresh_pendingState2
    by (simp add: onQr2_def pendingVendor_def updateMetrics_def saveVendorsToFile2_def
        toPersisted2_def Let_def)
qed

section \<open>The port allocator\<close>

text \<open>What a call of the loop returns: the first port from \<open>p\<close> on that is not
  in the set, which it adds; the error exactly when every port from \<open>p\<close> to
  \<open>hi\<close> is in the set.\<close>

lemma scanPorts_Inr:
  "scanPorts p hi used = Inr (q, used') \<Longrightarrow>
     p \<le> q \<and> q \<le> hi \<and> q \<notin> set used \<and> (\<forall>r. p \<le> r \<and> r < q \<longrightarrow> r \<in> set used) \<and> used' = used @ [q]"
proof (induction p hi used rule: scanPorts.induct)
  case (1 p hi used)
  show ?case
  proof (cases "p \<le> hi \<and> p \<in> set used")
    case True
    with "1.prems" have "scanPorts (p + 1) hi used = Inr (q, used')"
      by (simp add: scanPorts.simps [of p])
    with "1.IH" True have ih: "p + 1 \<le> q \<and> q \<le> hi \<and> q \<notin> set used \<and>
        (\<forall>r. p + 1 \<le> r \<and> r < q \<longrightarrow> r \<in> set used) \<and> used' = used @ [q]"
      by blast
    have "r \<in> set used" if "p \<le> r" and "r < q" for r
    proof (cases "r = p")
      case True
      with \<open>p \<le> hi \<and> p \<in> set used\<close> show ?thesis by simp
    next
      case False
      with that have "p + 1 \<le> r" by simp
      with ih that show ?thesis by blast
    qed
    moreover from ih have "p \<le> q" by simp
    ultimately show ?thesis using ih by blast
  next
    case False
    with "1.prems" show ?thesis
      by (auto simp: scanPorts.simps [of p] Set_add_def split: if_splits)
  qed
qed

lemma scanPorts_Inl:
  "(scanPorts p hi used = Inl NoPortsAvailable) = (\<forall>r. p \<le> r \<and> r \<le> hi \<longrightarrow> r \<in> set used)"
proof (induction p hi used rule: scanPorts.induct)
  case (1 p hi used)
  show ?case
  proof (cases "p \<le> hi \<and> p \<in> set used")
    case True
    then have "(scanPorts p hi used = Inl NoPortsAvailable) = (scanPorts (p + 1) hi used = Inl NoPortsAvailable)"
      by (simp add: scanPorts.simps [of p])
    also have "\<dots> = (\<forall>r. p + 1 \<le> r \<and> r \<le> hi \<longrightarrow> r \<in> set used)"
      using "1.IH" True by blast
    also have "\<dots> = (\<forall>r. p \<le> r \<and> r \<le> hi \<longrightarrow> r \<in> set used)"
    proof (intro iffI allI impI)
      fix r assume a: "\<forall>r. p + 1 \<le> r \<and> r \<le> hi \<longrightarrow> r \<in> set used" and r: "p \<le> r \<and> r \<le> hi"
      show "r \<in> set used"
      proof (cases "r = p")
        case True
        with \<open>p \<le> hi \<and> p \<in> set used\<close> show ?thesis by simp
      next
        case False
        with r have "p + 1 \<le> r \<and> r \<le> hi" by simp
        with a show ?thesis by blast
      qed
    next
      fix r assume a: "\<forall>r. p \<le> r \<and> r \<le> hi \<longrightarrow> r \<in> set used" and r: "p + 1 \<le> r \<and> r \<le> hi"
      then have "p \<le> r \<and> r \<le> hi" by simp
      with a show "r \<in> set used" by blast
    qed
    finally show ?thesis .
  next
    case False
    then show ?thesis
      by (auto simp: scanPorts.simps [of p])
  qed
qed

lemma scanPorts_error: "scanPorts p hi used = Inl e \<Longrightarrow> e = NoPortsAvailable"
proof (induction p hi used rule: scanPorts.induct)
  case (1 p hi used)
  then show ?case
    by (cases "p \<le> hi \<and> p \<in> set used") (auto simp: scanPorts.simps [of p] split: if_splits)
qed

lemma getAvailablePort_Inr:
  assumes "getAvailablePort bp used = Inr (q, used')"
  shows "PORT_RANGE_START bp \<le> q" and "q \<le> PORT_RANGE_END bp" and "q \<notin> set used"
    and "\<And>r. PORT_RANGE_START bp \<le> r \<Longrightarrow> r < q \<Longrightarrow> r \<in> set used" and "used' = used @ [q]"
  using scanPorts_Inr [OF assms [unfolded getAvailablePort_def]] by blast+

lemma getAvailablePort_Inl:
  "(getAvailablePort bp used = Inl NoPortsAvailable) =
     ({PORT_RANGE_START bp..PORT_RANGE_END bp} \<subseteq> set used)"
  unfolding getAvailablePort_def scanPorts_Inl by auto

lemma getAvailablePort_error: "getAvailablePort bp used = Inl e \<Longrightarrow> e = NoPortsAvailable"
  unfolding getAvailablePort_def by (rule scanPorts_error)

lemma getAvailablePort_lowest:
  assumes "PORT_RANGE_START bp \<le> q" and "q \<le> PORT_RANGE_END bp" and "q \<notin> set used"
    and below: "\<And>r. PORT_RANGE_START bp \<le> r \<Longrightarrow> r < q \<Longrightarrow> r \<in> set used"
  shows "getAvailablePort bp used = Inr (q, used @ [q])"
proof (cases "getAvailablePort bp used")
  case (Inl e)
  then have "getAvailablePort bp used = Inl NoPortsAvailable"
    using getAvailablePort_error by blast
  with assms(1-3) show ?thesis
    unfolding getAvailablePort_Inl by auto
next
  case (Inr r)
  obtain p used' where r: "r = (p, used')" by (cases r)
  note res = getAvailablePort_Inr [OF Inr [unfolded r]]
  have "\<not> p < q" using res(1,3) below by blast
  moreover have "\<not> q < p" using res(4) assms(1,3) by blast
  ultimately have "p = q" by simp
  with Inr r res(5) show ?thesis by simp
qed

lemma pool_step_inv:
  assumes "distinct used" and "set used \<subseteq> {PORT_RANGE_START bp..PORT_RANGE_END bp}"
  shows "distinct (pool_step bp used x) \<and>
         set (pool_step bp used x) \<subseteq> {PORT_RANGE_START bp..PORT_RANGE_END bp}"
proof (cases x)
  case Acquire
  show ?thesis
  proof (cases "getAvailablePort bp used")
    case (Inl e)
    with Acquire assms show ?thesis by simp
  next
    case (Inr r)
    obtain p used' where r: "r = (p, used')" by (cases r)
    note res = getAvailablePort_Inr [OF Inr [unfolded r]]
    from Acquire Inr r res(1,2,3,5) assms show ?thesis by simp
  qed
next
  case (Release p)
  with assms show ?thesis by (auto simp: Set_delete_def distinct_removeAll)
qed

lemma pool_foldl_inv:
  "distinct used \<Longrightarrow> set used \<subseteq> {PORT_RANGE_START bp..PORT_RANGE_END bp} \<Longrightarrow>
     distinct (foldl (pool_step bp) used xs) \<and>
     set (foldl (pool_step bp) used xs) \<subseteq> {PORT_RANGE_START bp..PORT_RANGE_END bp}"
proof (induction xs arbitrary: used)
  case Nil
  then show ?case by simp
next
  case (Cons x xs)
  from pool_step_inv [OF Cons.prems, of x] Cons.IH show ?case by simp
qed

text \<open>
  \<^bold>\<open>C2.\<close>  Whatever sequence of \<^verbatim>\<open>getAvailablePort()\<close> and
  \<^verbatim>\<open>usedPorts.delete(p)\<close> calls a fresh allocator goes through, its set of
  reserved ports holds no port twice and only ports of
  \<open>[PORT_RANGE_START, PORT_RANGE_END]\<close>.  In any set \<open>used\<close>, a successful
  \<^verbatim>\<open>getAvailablePort()\<close> returns a port of the range that was not reserved, below
  which every port of the range is reserved (the lowest free one), and adds
  exactly that port to the set; the call fails if and only if every port of
  the range is reserved, and then with \<open>No ports available\<close>.
\<close>

theorem C2_port_allocator:
  "distinct (pool_run bp xs) \<and>
   set (pool_run bp xs) \<subseteq> {PORT_RANGE_START bp..PORT_RANGE_END bp} \<and>
   (\<forall>p used'. getAvailablePort bp used = Inr (p, used') \<longrightarrow>
      p \<in> {PORT_RANGE_START bp..PORT_RANGE_END bp} \<and> p \<notin> set used \<and>
      (\<forall>q \<in> {PORT_RANGE_START bp..PORT_RANGE_END bp}. q < p \<longrightarrow> q \<in> set used) \<and>
      used' = used @ [p]) \<and>
   ((\<exists>e. getAvailablePort bp used = Inl e) =
      ({PORT_RANGE_START bp..PORT_RANGE_END bp} \<subseteq> set used)) \<and>
   (\<forall>e. getAvailablePort bp used = Inl e \<longrightarrow> e = NoPortsAvailable)"
proof -
  have inv: "distinct (pool_run bp xs) \<and>
      set (pool_run bp xs) \<subseteq> {PORT_RANGE_START bp..PORT_RANGE_END bp}"
    unfolding pool_run_def by (rule pool_foldl_inv) simp_all
  have acq: "p \<in> {PORT_RANGE_START bp..PORT_RANGE_END bp} \<and> p \<notin> set used \<and>
      (\<forall>q \<in> {PORT_RANGE_START bp..PORT_RANGE_END bp}. q < p \<longrightarrow> q \<in> set used) \<and>
      used' = used @ [p]"
    if "getAvailablePort bp used = Inr (p, used')" for p used'
    using getAvailablePort_Inr [OF that] by auto
  have exh: "(\<exists>e. getAvailablePort bp used = Inl e) =
      ({PORT_RANGE_START bp..PORT_RANGE_END bp} \<subseteq> set used)"
    using getAvailablePort_Inl [of bp used] getAvailablePort_error [of bp used] by blast
  from inv acq exh getAvailablePort_error show ?thesis by blast
qed

theorem C2_port_allocator_witness:
  "pool_run 3008 [Acquire, Acquire, Release 3108, Acquire, Acquire] = [3109, 3108, 3110] \<and>
   distinct (pool_run 3008 [Acquire, Acquire, Release 3108, Acquire, Acquire]) \<and>
   getAvailablePort 3008 [3108, 3110] = Inr (3109, [3108, 3110, 3109]) \<and>
   3109 \<notin> set [3108, 3110 :: int] \<and>
   getAvailablePort 3008 [3108..3178] = Inl NoPortsAvailable \<and>
   {PORT_RANGE_START 3008..PORT_RANGE_END 3008} \<subseteq> set [3108..3178]"
proof -
  have run: "pool_run 3008 [Acquire, Acquire, Release 3108, Acquire, Acquire] = [3109, 3108, 3110]"
    by (simp add: pool_run_def getAvailablePort_def scanPorts.simps Set_add_def Set_delete_def
        port_consts)
  have acq: "getAvailablePort 3008 [3108, 3110] = Inr (3109, [3108, 3110, 3109])"
    by (simp add: getAvailablePort_def scanPorts.simps Set_add_def port_consts)
  have full: "{PORT_RANGE_START 3008..PORT_RANGE_END 3008} \<subseteq> set [3108..3178]"
    by (simp add: port_consts del: upto_rec_numeral)
  note inst = C2_port_allocator [of 3008 "[Acquire, Acquire, Release 3108, Acquire, Acquire]" "[3108, 3110]"]
  note inst' = C2_port_allocator [of 3008 "[]" "[3108..3178]"]
  from inst have d: "distinct (pool_run 3008 [Acquire, Acquire, Release 3108, Acquire, Acquire])"
    by blast
  from inst acq have fresh: "3109 \<notin> set [3108, 3110 :: int]" by blast
  from inst' full have "getAvailablePort 3008 [3108..3178] = Inl NoPortsAvailable" by blast
  with run d acq fresh full show ?thesis by blast
qed

section \<open>Capacity\<close>

text \<open>A key that the map does not hold is appended.\<close>

lemma update_absent: "k \<notin> fst ` set m \<Longrightarrow> AList.update k v m = m @ [(k, v)]"
  by (induction m) auto

text \<open>After \<open>n\<close> of the sample registrations (\<open>n\<close> up to 70) the registry
  holds \<open>n\<close> vendors, on the \<open>n\<close> lowest ports of the range.\<close>

lemma registrations_state:
  "n \<le> 70 \<Longrightarrow>
     map fst (vendors (run 3008 (registrations n) fresh)) = map nthId [0..<n] \<and>
     map (\<lambda>e. assignedNumber (snd e)) (vendors (run 3008 (registrations n) fresh)) =
       map (\<lambda>k. Some (nthPhone k)) [0..<n] \<and>
     usedPorts (run 3008 (registrations n) fresh) = map (\<lambda>k. 3108 + int k) [0..<n] \<and>
     loadVendorsFromFile (run 3008 (registrations n) fresh) =
       map toPersisted (map snd (vendors (run 3008 (registrations n) fresh)))"
proof (induction n)
  case 0
  show ?case
    by (simp add: registrations_def run_def fresh_def initial_def loadVendorsFromFile_def)
next
  case (Suc n)
  let ?st = "run 3008 (registrations n) fresh"
  let ?v = "\<lparr>vendorId = nthId n, provider = providers ?st, phoneNumber = [], name = ''N'',
             status = pending, qr = None, lastConnection = None, reconnectAttempts = 0,
             port = 3108 + int n, assignedNumber = Some (nthPhone n)\<rparr>"
  from Suc.prems have n: "n < 70" by simp
  then have "n \<le> 70" by simp
  note ih = Suc.IH [OF this]
  from ih have IH: "map fst (vendors ?st) = map nthId [0..<n]"
      "map (\<lambda>e. assignedNumber (snd e)) (vendors ?st) = map (\<lambda>k. Some (nthPhone k)) [0..<n]"
      "usedPorts ?st = map (\<lambda>k. 3108 + int k) [0..<n]"
      "loadVendorsFromFile ?st = map toPersisted (map snd (vendors ?st))"
    by blast+
  have run_Suc: "run 3008 (registrations (Suc n)) fresh =
      snd (registerVendor 3008 ''N'' (nthPhone n) (nthId n) ?st)"
    by (simp add: registrations_def run_def)
  have len: "length (vendors ?st) = n"
    using arg_cong [OF IH(1), of length] by simp
  have keys: "fst ` set (vendors ?st) = nthId ` {0..<n}"
    using arg_cong [OF IH(1), of set] by simp
  have inj: "nthId n \<notin> nthId ` {0..<n}"
  proof
    assume "nthId n \<in> nthId ` {0..<n}"
    then obtain k where "k < n" and "nthId n = nthId k" by auto
    then have "length (nthId n) = length (nthId k)" by simp
    with \<open>k < n\<close> show False by (simp add: nthId_def)
  qed
  have fresh_key: "nthId n \<notin> fst ` set (vendors ?st)"
    unfolding keys by (rule inj)
  have nums: "(\<lambda>e. assignedNumber (snd e)) ` set (vendors ?st) =
      (\<lambda>k. Some (nthPhone k)) ` {0..<n}"
    using arg_cong [OF IH(2), of set] by simp
  have no_dup: "\<not> alreadyRegistered (nthPhone n) ?st"
  proof -
    have "\<not> (\<exists>x. x \<in> set (map toPersisted (map snd (vendors ?st))) \<and>
               p_assignedNumber x = Some (nthPhone n))"
    proof
      assume "\<exists>x. x \<in> set (map toPersisted (map snd (vendors ?st))) \<and>
               p_assignedNumber x = Some (nthPhone n)"
      then obtain e where e: "e \<in> set (vendors ?st)"
        and a: "assignedNumber (snd e) = Some (nthPhone n)"
        by (auto simp: toPersisted_def)
      from e have "assignedNumber (snd e) \<in> (\<lambda>e. assignedNumber (snd e)) ` set (vendors ?st)"
        by (rule imageI)
      then obtain k where "k < n" and "nthPhone n = nthPhone k"
        unfolding nums a by auto
      then have "length (nthPhone n) = length (nthPhone k)" by simp
      with \<open>k < n\<close> show False by (simp add: nthPhone_def)
    qed
    then have "List.find (\<lambda>v. p_assignedNumber v = Some (nthPhone n))
                 (map toPersisted (map snd (vendors ?st))) = None"
      unfolding find_None_iff by blast
    then show ?thesis by (simp add: alreadyRegistered_def IH(4))
  qed
  have acquire: "getAvailablePort 3008 (usedPorts ?st) =
      Inr (3108 + int n, usedPorts ?st @ [3108 + int n])"
  proof (rule getAvailablePort_lowest)
    show "PORT_RANGE_START 3008 \<le> 3108 + int n" by (simp add: port_consts)
    show "3108 + int n \<le> PORT_RANGE_END 3008" using n by (simp add: port_consts)
    show "3108 + int n \<notin> set (usedPorts ?st)" unfolding IH(3) by auto
  next
    fix r :: int assume r: "PORT_RANGE_START 3008 \<le> r" "r < 3108 + int n"
    then have k: "nat (r - 3108) \<in> {0..<n}" and eq: "r = 3108 + int (nat (r - 3108))"
      by (simp_all add: port_consts)
    from k have "3108 + int (nat (r - 3108)) \<in> (\<lambda>k. 3108 + int k) ` {0..<n}"
      by (rule imageI)
    with eq show "r \<in> set (usedPorts ?st)" unfolding IH(3) by simp
  qed
  have reg: "snd (registerVendor 3008 ''N'' (nthPhone n) (nthId n) ?st) =
      (saveVendorsToFile (updateMetrics
         (?st\<lparr>usedPorts := usedPorts ?st @ [3108 + int n], providers := providers ?st + 1,
               vendors := vendors ?st @ [(nthId n, ?v)],
               metrics := (metrics ?st)\<lparr>totalConnections := totalConnections (metrics ?st) + 1\<rparr>\<rparr>)))
        \<lparr>httpServers := httpServers ?st @ [3108 + int n]\<rparr>"
    using n no_dup
    by (simp add: registerVendor_def len acquire Let_def update_absent [OF fresh_key]
        MAX_CONCURRENT_CONNECTIONS_def nthPhone_def)
  show ?case
    unfolding run_Suc reg
    by (simp add: IH loadVendorsFromFile_def saveVendorsToFile_def)
qed

text \<open>
  \<^bold>\<open>C1.\<close>  The code evaluated where the claim fails.  After 70 registrations
  the registry is at the cap, and both registration handlers reject the next
  request with 429 \<open>Maximum connections reached\<close> and leave the state as it
  is.  The range \<open>[PORT_RANGE_START, PORT_RANGE_END]\<close> has 71 ports, not 70:
  in this state the allocator is not exhausted, a call of
  \<^verbatim>\<open>getAvailablePort()\<close> returns port 3178.
\<close>

theorem C1_range_exceeds_cap:
  "int (length (vendors capacityState)) = MAX_CONCURRENT_CONNECTIONS \<and>
   registerVendor 3008 nm phone newId capacityState = (MaximumConnectionsReached, capacityState) \<and>
   registerVendor2 3008 nm phone newId capacityState = (MaximumConnectionsReached, capacityState) \<and>
   MAX_CONCURRENT_CONNECTIONS = 70 \<and>
   length [PORT_RANGE_START bp..PORT_RANGE_END bp] = 71 \<and>
   getAvailablePort 3008 (usedPorts capacityState) =
     Inr (3178, usedPorts capacityState @ [3178])"
proof -
  have "(70::nat) \<le> 70" by simp
  note st = registrations_state [OF this, folded capacityState_def]
  from st have keys: "map fst (vendors capacityState) = map nthId [0..<70]"
    and used: "usedPorts capacityState = map (\<lambda>k. 3108 + int k) [0..<70]"
    by blast+
  have len: "length (vendors capacityState) = 70"
    using arg_cong [OF keys, of length] by simp
  have acquire: "getAvailablePort 3008 (usedPorts capacityState) =
      Inr (3178, usedPorts capacityState @ [3178])"
  proof (rule getAvailablePort_lowest)
    show "PORT_RANGE_START 3008 \<le> 3178" by (simp add: port_consts)
    show "3178 \<le> PORT_RANGE_END 3008" by (simp add: port_consts)
    show "3178 \<notin> set (usedPorts capacityState)" unfolding used by auto
  next
    fix r :: int assume r: "PORT_RANGE_START 3008 \<le> r" "r < 3178"
    then have k: "nat (r - 3108) \<in> {0..<70}" and eq: "r = 3108 + int (nat (r - 3108))"
      by (simp_all add: port_consts)
    from k have "3108 + int (nat (r - 3108)) \<in> (\<lambda>k. 3108 + int k) ` {0..<70}"
      by (rule imageI)
    with eq show "r \<in> set (usedPorts capacityState)" unfolding used by simp
  qed
  have range: "length [PORT_RANGE_START bp..PORT_RANGE_END bp] = 71"
    by (simp add: port_consts)
  from len acquire range show ?thesis
    by (simp add: registerVendor_def registerVendor2_def MAX_CONCURRENT_CONNECTIONS_def)
qed

section \<open>The failed-connections counter\<close>

text \<open>No operation writes \<^verbatim>\<open>metrics.failedConnections\<close>.\<close>

lemma failed_updateMetrics [simp]:
  "failedConnections (metrics (updateMetrics st)) = failedConnections (metrics st)"
  by (simp add: updateMetrics_def)

lemma failed_saveVendorsToFile [simp]:
  "failedConnections (metrics (saveVendorsToFile st)) = failedConnections (metrics st)"
  "failedConnections (metrics (saveVendorsToFile2 st)) = failedConnections (metrics st)"
  by (simp_all add: saveVendorsToFile_def saveVendorsToFile2_def)

lemma failed_cleanupVendor [simp]:
  "failedConnections (metrics (cleanupVendor i st)) = failedConnections (metrics st)"
  "failedConnections (metrics (cleanupVendor2 i st)) = failedConnections (metrics st)"
  by (simp_all add: cleanupVendor_def cleanupVendor2_def split: option.splits)

lemma failed_registerVendor [simp]:
  "failedConnections (metrics (snd (registerVendor bp nm phone newId st))) =
     failedConnections (metrics st)"
  "failedConnections (metrics (snd (registerVendor2 bp nm phone newId st))) =
     failedConnections (metrics st)"
  by (simp_all add: registerVendor_def registerVendor2_def Let_def split: sum.splits prod.splits)

lemma failed_events [simp]:
  "failedConnections (metrics (onQr i code st)) = failedConnections (metrics st)"
  "failedConnections (metrics (onReady i phone confirmed now st)) = failedConnections (metrics st)"
  "failedConnections (metrics (onDisconnect i st)) = failedConnections (metrics st)"
  "failedConnections (metrics (onConnectionFailure i st)) = failedConnections (metrics st)"
  by (simp_all add: onQr_def onReady_def onDisconnect_def onConnectionFailure_def Let_def
      split: option.splits)

lemma failed_events2 [simp]:
  "failedConnections (metrics (onQr2 p i code st)) = failedConnections (metrics st)"
  "failedConnections (metrics (onReady2 p i phone now st)) = failedConnections (metrics st)"
  "failedConnections (metrics (onDisconnect2 p i st)) = failedConnections (metrics st)"
  "failedConnections (metrics (onConnectionFailure2 p i st)) = failedConnections (metrics st)"
  by (simp_all add: onQr2_def onReady2_def onDisconnect2_def onConnectionFailure2_def Let_def
      split: option.splits)

lemma failed_saveConversation:
  "saveConversation vid uid msg sndr now st = Inr st' \<Longrightarrow>
     failedConnections (metrics st') = failedConnections (metrics st)"
  by (auto simp: saveConversation_def Let_def split: conversation_file.splits)

lemma failed_sendMessage [simp]:
  "failedConnections (metrics (snd (sendMessage f vid target msg isGroup now st))) =
     failedConnections (metrics st)"
  "failedConnections (metrics (snd (sendMessage2 f vid target msg isGroup now st))) =
     failedConnections (metrics st)"
  by (auto simp: sendMessage_def sendMessage2_def Let_def dest: failed_saveConversation
      split: option.splits sum.splits)

lemma failed_broadcastLoop:
  "failedConnections (metrics (snd (broadcastLoop f target msg now vs (rs, st)))) =
     failedConnections (metrics st)"
proof (induction vs arbitrary: rs st)
  case Nil
  show ?case by simp
next
  case (Cons a vs)
  obtain i v where a: "a = (i, v)" by (cases a)
  show ?case
    unfolding a
    by (auto simp: Let_def Cons.IH dest: failed_saveConversation split: option.splits sum.splits)
qed

lemma failed_retryLoop [simp]:
  "failedConnections (metrics (retryLoop vs st)) = failedConnections (metrics st)"
  "failedConnections (metrics (retryLoop2 vs st)) = failedConnections (metrics st)"
  by (induction vs arbitrary: st; auto)+

lemma failed_portOrAvailable:
  "portOrAvailable bp v st = Inr (p, st') \<Longrightarrow>
     failedConnections (metrics st') = failedConnections (metrics st)"
  by (auto simp: portOrAvailable_def split: if_splits sum.splits)

lemma failed_qrRefresh [simp]:
  "failedConnections (metrics (qrRefresh bp i captured st)) = failedConnections (metrics st)"
  by (auto simp: qrRefresh_def Let_def dest!: failed_portOrAvailable split: sum.splits)

lemma failed_restoreLoop [simp]:
  "failedConnections (metrics (restoreLoop bp ps st)) = failedConnections (metrics st)"
  by (induction ps arbitrary: st) (auto simp: Let_def split: sum.splits)

lemma failed_variant2 [simp]:
  "failedConnections (metrics (snd (deleteVendor2 i st))) = failedConnections (metrics st)"
  "failedConnections (metrics (snd (updateVendor2 i nm phone st))) = failedConnections (metrics st)"
  by (simp_all add: deleteVendor2_def updateVendor2_def split: option.splits)

lemma failed_step:
  "failedConnections (metrics (step bp st e)) = failedConnections (metrics st)"
  by (cases e) (simp_all add: deleteVendor_def broadcast_def failed_broadcastLoop retrySweep_def)

lemma failed_step2:
  "failedConnections (metrics (step2 bp st e)) = failedConnections (metrics st)"
  by (cases e) (simp_all add: initializeExistingVendors_def retrySweep2_def)

lemma failed_run:
  "failedConnections (metrics (run bp evs st)) = failedConnections (metrics st)"
  unfolding run_def by (induction evs arbitrary: st) (simp_all add: failed_step)

lemma failed_run2:
  "failedConnections (metrics (run2 bp evs st)) = failedConnections (metrics st)"
  unfolding run2_def by (induction evs arbitrary: st) (simp_all add: failed_step2)

text \<open>
  \<^bold>\<open>C10.\<close>  In every state that either variant reaches from a fresh process,
  by any sequence of registrations, provider events (connection failures
  among them), deletions, updates, sends, broadcasts, code refreshes, the
  restoration at start-up and retry sweeps, the \<open>failedConnections\<close> figure
  that \<^verbatim>\<open>GET /health\<close> reports is 0.
\<close>

theorem C10_failedConnections_zero:
  "failedConnections (fst (health (run bp evs (initial f c)))) = 0 \<and>
   failedConnections (fst (health (run2 bp evs2 (initial f c)))) = 0"
  by (simp add: health_def failed_run failed_run2 initial_def)

section \<open>The ready transition\<close>

text \<open>What both \<^verbatim>\<open>ready\<close> handlers do to a vendor that is in the registry: the
  entry becomes connected, takes the confirmed number, loses its pairing
  code, gets the current time as last connection and 0 reconnect attempts.
  Variant 2 clears the interval of the subscription that the event came
  from.  The number given at registration decides nothing but the warning
  of variant 1.\<close>

lemma ready_fields:
  assumes "map_of (vendors st) i = Some v"
  shows "map_of (vendors (onReady i phone confirmed now st)) i =
           Some (v\<lparr>status := connected, phoneNumber := confirmed, qr := None,
                   lastConnection := Some (Date now), reconnectAttempts := 0\<rparr>)"
    and "map_of (vendors (onReady2 p i confirmed now st)) i =
           Some (v\<lparr>status := connected, phoneNumber := confirmed, qr := None,
                   lastConnection := Some (Date now), reconnectAttempts := 0\<rparr>)"
    and "p \<notin> set (intervals (onReady2 p i confirmed now st))"
    and "(onReady i phone confirmed now st)\<lparr>warnings := []\<rparr> =
           (onReady i confirmed confirmed now st)\<lparr>warnings := []\<rparr>"
  using assms
  by (simp_all add: onReady_def onReady2_def Let_def update_conv')

lemma ready_keeps_other_intervals:
  "q \<noteq> p \<Longrightarrow> q \<in> set (intervals st) \<Longrightarrow> q \<in> set (intervals (onReady2 p i confirmed now st))"
  by (cases "map_of (vendors st) i") (simp_all add: onReady2_def Let_def)

text \<open>
  \<^bold>\<open>C3.\<close>  The code evaluated where the claim fails.  In \<open>refreshedState\<close>
  (variant 2) the refresh interval of the vendor's first subscription has
  fired once and is still live, and the provider it created has issued a
  code, so that two refresh intervals are live for vendor \<open>a\<close>.  When that
  provider emits \<^verbatim>\<open>ready\<close>, the vendor becomes connected with the confirmed
  number, no pairing code, a last connection and 0 attempts, and the
  interval of the emitting subscription is cleared; the interval of the
  first subscription is not.  It stays live, closing over the vendor object
  of before the refresh, and when it fires next the connected vendor is
  replaced by a pending one with no confirmed number.
\<close>

theorem C3_ready_leaves_refresh_interval_live:
  "intervals refreshedState = [0, 1] \<and>
   map_of (vendors refreshedState) ''a'' =
     Some (pendingVendor\<lparr>provider := 1, qr := Some ''code2''\<rparr>) \<and>
   map_of (vendors (step2 3008 refreshedState (Ready2 1 ''a'' ''521'' 7))) ''a'' =
     Some (pendingVendor\<lparr>provider := 1, status := connected, phoneNumber := ''521'',
             qr := None, lastConnection := Some (Date 7), reconnectAttempts := 0\<rparr>) \<and>
   intervals (step2 3008 refreshedState (Ready2 1 ''a'' ''521'' 7)) = [0] \<and>
   capturedVendor (step2 3008 refreshedState (Ready2 1 ''a'' ''521'' 7)) 0 ''a'' =
     Some pendingVendor \<and>
   map_of (vendors (run2 3008 [Ready2 1 ''a'' ''521'' 7, QrRefresh2 0 ''a'' pendingVendor]
                      refreshedState)) ''a'' =
     Some (pendingVendor\<lparr>provider := 2\<rparr>) \<and>
   status (pendingVendor\<lparr>provider := 2\<rparr>) = pending \<and>
   phoneNumber (pendingVendor\<lparr>provider := 2\<rparr>) = []"
proof -
  have ready: "step2 3008 refreshedState (Ready2 1 ''a'' ''521'' 7) =
     \<lparr>vendors = [(''a'', pendingVendor\<lparr>provider := 1, status := connected,
                          phoneNumber := ''521'', qr := None, lastConnection := Some (Date 7),
                          reconnectAttempts := 0\<rparr>)],
      usedPorts = [],
      metrics = \<lparr>totalConnections = 0, activeConnections = 1,
                 pendingConnections = 0, failedConnections = 0\<rparr>,
      vendorsFile = Stored [toPersisted2 (pendingVendor\<lparr>provider := 1, status := connected,
                              phoneNumber := ''521'', qr := None,
                              lastConnection := Some (Date 7), reconnectAttempts := 0\<rparr>)],
      conversations = (\<lambda>_. NoConversation),
      providers = 2, intervals = [0],
      closures = [(0, ''a'', Detached pendingVendor), (1, ''a'', Attached)],
      httpServers = [3108, 3108], warnings = [], sendAttempts = []\<rparr>"
    by (simp add: refreshedState_eq onReady2_def pendingVendor_def updateMetrics_def
        saveVendorsToFile2_def Let_def)
  have fired: "map_of (vendors (run2 3008 [Ready2 1 ''a'' ''521'' 7,
        QrRefresh2 0 ''a'' pendingVendor] refreshedState)) ''a'' =
      Some (pendingVendor\<lparr>provider := 2\<rparr>)"
    unfolding run2_def foldl.simps ready
    by (simp add: capturedVendor_def qrRefresh_def cleanupVendor2_def portOrAvailable_def
        Set_delete_def updateMetrics_def saveVendorsToFile2_def detach_def pendingVendor_def
        Let_def)
  show ?thesis
    unfolding ready
    using fired by (simp add: refreshedState_eq capturedVendor_def pendingVendor_def)
qed

section \<open>The registry invariant\<close>

text \<open>Every operation keeps the keys of the registry distinct and the
  reconnect attempts at 3 or below, in the registry and in the vendor objects
  that refresh callbacks hold.\<close>

lemma list_all_update: "list_all P m \<Longrightarrow> P (k, v) \<Longrightarrow> list_all P (AList.update k v m)"
  by (induction m) auto

lemma list_all_delete: "list_all P m \<Longrightarrow> list_all P (AList.delete k m)"
  by (induction m) auto

lemma list_all_lookup: "list_all P m \<Longrightarrow> map_of m k = Some v \<Longrightarrow> P (k, v)"
  by (auto simp: list_all_iff dest!: map_of_SomeD)

lemmas inv_simps = registryInvariant_def distinct_update distinct_delete list_all_update
  list_all_delete

lemma inv_same:
  "registryInvariant st \<Longrightarrow> vendors st' = vendors st \<Longrightarrow> closures st' = closures st \<Longrightarrow>
     registryInvariant st'"
  by (simp add: registryInvariant_def)

lemma inv_lookup:
  "registryInvariant st \<Longrightarrow> map_of (vendors st) i = Some v \<Longrightarrow> reconnectAttempts v \<le> 3"
  using list_all_lookup [of "\<lambda>e. reconnectAttempts (snd e) \<le> 3" "vendors st" i v]
  by (simp add: registryInvariant_def)

lemma closures_detach:
  assumes "registryInvariant st"
  shows "list_all (\<lambda>(p, k, c). case c of Detached v \<Rightarrow> reconnectAttempts v \<le> 3 | _ \<Rightarrow> True)
           (closures (detach i st))"
proof -
  have "\<And>v. map_of (vendors st) i = Some v \<Longrightarrow> reconnectAttempts v \<le> 3"
    using assms by (rule inv_lookup)
  moreover have "list_all (\<lambda>(p, k, c). case c of Detached v \<Rightarrow> reconnectAttempts v \<le> 3 | _ \<Rightarrow> True)
      (closures st)"
    using assms by (simp add: registryInvariant_def)
  ultimately show ?thesis
    by (auto simp: detach_def list_all_iff split: option.splits capture.splits)
qed

lemma inv_captured:
  assumes "registryInvariant st" and "capturedVendor st p i = Some v"
  shows "reconnectAttempts v \<le> 3"
proof (cases "map_of (closures st) p")
  case None
  with assms(2) show ?thesis by (simp add: capturedVendor_def)
next
  case (Some kc)
  obtain k c where kc: "kc = (k, c)" by (cases kc)
  from assms(1) have "list_all (\<lambda>(p, k, c). case c of Detached v \<Rightarrow> reconnectAttempts v \<le> 3 | _ \<Rightarrow> True)
      (closures st)"
    by (simp add: registryInvariant_def)
  from list_all_lookup [OF this Some [unfolded kc]]
  have c: "case c of Detached v \<Rightarrow> reconnectAttempts v \<le> 3 | _ \<Rightarrow> True" by simp
  show ?thesis
  proof (cases c)
    case Undefined
    with assms(2) Some kc show ?thesis by (simp add: capturedVendor_def split: if_splits)
  next
    case Attached
    with assms(2) Some kc have "map_of (vendors st) i = Some v"
      by (simp add: capturedVendor_def split: if_splits)
    with assms(1) show ?thesis by (rule inv_lookup)
  next
    case (Detached w)
    with assms(2) Some kc c show ?thesis by (simp add: capturedVendor_def split: if_splits)
  qed
qed

lemma inv_cleanupVendor:
  "registryInvariant st \<Longrightarrow> registryInvariant (cleanupVendor i st)"
  by (cases "map_of (vendors st) i") (simp_all add: cleanupVendor_def inv_simps)

lemma inv_cleanupVendor2:
  "registryInvariant st \<Longrightarrow> registryInvariant (cleanupVendor2 i st)"
  using closures_detach [of st i]
  by (cases "map_of (vendors st) i") (simp_all add: cleanupVendor2_def inv_simps)

lemma inv_registerVendor:
  "registryInvariant st \<Longrightarrow> registryInvariant (snd (registerVendor bp nm phone newId st))"
  by (auto simp: registerVendor_def Let_def inv_simps split: sum.splits)

lemma inv_set:
  assumes "registryInvariant st" and "reconnectAttempts v \<le> 3"
  shows "registryInvariant ((detach i st)\<lparr>vendors := AList.update i v (vendors st)\<rparr>)"
  using assms closures_detach [OF assms(1), of i] by (simp add: inv_simps)

lemma inv_registerVendor2:
  assumes "registryInvariant st"
  shows "registryInvariant (snd (registerVendor2 bp nm phone newId st))"
proof (cases "getAvailablePort bp (usedPorts st)")
  case (Inl e)
  with assms show ?thesis by (simp add: registerVendor2_def)
next
  case (Inr r)
  obtain prt used' where r: "r = (prt, used')" by (cases r)
  let ?v = "\<lparr>vendorId = newId, provider = providers st, phoneNumber = [], name = nm,
             status = pending, qr = None, lastConnection = None,
             reconnectAttempts = 0, port = prt, assignedNumber = Some phone\<rparr>"
  let ?st1 = "st\<lparr>usedPorts := used', providers := providers st + 1\<rparr>"
  let ?st2 = "(detach newId ?st1)\<lparr>vendors := AList.update newId ?v (vendors ?st1)\<rparr>"
  let ?st3 = "?st2\<lparr>metrics := (metrics ?st2)
                \<lparr>totalConnections := totalConnections (metrics ?st2) + 1\<rparr>\<rparr>"
  let ?st4 = "saveVendorsToFile2 (updateMetrics ?st3)"
  from assms have "registryInvariant ?st1" by (rule inv_same) simp_all
  then have "registryInvariant ?st2" by (intro inv_set) simp_all
  then have "registryInvariant ?st3" by (rule inv_same) simp_all
  then have "registryInvariant ?st4" by (rule inv_same) simp_all
  then have "registryInvariant (?st4\<lparr>httpServers := httpServers ?st4 @ [prt]\<rparr>)"
    by (rule inv_same) simp_all
  with assms Inr r show ?thesis by (simp add: registerVendor2_def Let_def)
qed

lemma inv_events:
  assumes "registryInvariant st"
  shows "registryInvariant (onQr i code st)"
    and "registryInvariant (onReady i phone confirmed now st)"
    and "registryInvariant (onDisconnect i st)"
    and "registryInvariant (onConnectionFailure i st)"
proof -
  show "registryInvariant (onQr i code st)"
    using assms inv_lookup [OF assms, of i]
    by (cases "map_of (vendors st) i") (simp_all add: onQr_def inv_simps)
  show "registryInvariant (onReady i phone confirmed now st)"
    using assms
    by (cases "map_of (vendors st) i") (simp_all add: onReady_def Let_def inv_simps)
  show "registryInvariant (onDisconnect i st)"
    using assms inv_lookup [OF assms, of i]
    by (cases "map_of (vendors st) i") (simp_all add: onDisconnect_def inv_simps)
  show "registryInvariant (onConnectionFailure i st)"
  proof (cases "map_of (vendors st) i")
    case None
    with assms show ?thesis by (simp add: onConnectionFailure_def)
  next
    case (Some v)
    let ?st1 = "updateMetrics (st\<lparr>vendors := AList.update i (v\<lparr>status := disconnected\<rparr>) (vendors st)\<rparr>)"
    from assms inv_lookup [OF assms Some] have "registryInvariant ?st1"
      by (simp add: inv_simps)
    then have "registryInvariant (cleanupVendor i ?st1)" by (rule inv_cleanupVendor)
    then have "registryInvariant (saveVendorsToFile (cleanupVendor i ?st1))"
      by (rule inv_same) simp_all
    with Some show ?thesis by (simp add: onConnectionFailure_def)
  qed
qed

lemma inv_events2:
  assumes "registryInvariant st"
  shows "registryInvariant (onQr2 p i code st)"
    and "registryInvariant (onReady2 p i phone now st)"
    and "registryInvariant (onDisconnect2 p i st)"
    and "registryInvariant (onConnectionFailure2 p i st)"
proof -
  show "registryInvariant (onQr2 p i code st)"
    using assms inv_lookup [OF assms, of i]
    by (cases "map_of (vendors st) i") (simp_all add: onQr2_def Let_def inv_simps)
  show "registryInvariant (onReady2 p i phone now st)"
    using assms
    by (cases "map_of (vendors st) i") (simp_all add: onReady2_def Let_def inv_simps)
  show "registryInvariant (onDisconnect2 p i st)"
    using assms inv_lookup [OF assms, of i]
    by (cases "map_of (vendors st) i") (simp_all add: onDisconnect2_def Let_def inv_simps)
  show "registryInvariant (onConnectionFailure2 p i st)"
  proof (cases "map_of (vendors st) i")
    case None
    with assms show ?thesis by (simp add: onConnectionFailure2_def Let_def inv_simps)
  next
    case (Some v)
    let ?st1 = "updateMetrics (st\<lparr>intervals := removeAll p (intervals st),
        vendors := AList.update i (v\<lparr>status := disconnected\<rparr>) (vendors st)\<rparr>)"
    from assms inv_lookup [OF assms Some] have "registryInvariant ?st1"
      by (simp add: inv_simps)
    then have "registryInvariant (cleanupVendor2 i ?st1)" by (rule inv_cleanupVendor2)
    with Some show ?thesis by (simp add: onConnectionFailure2_def Let_def)
  qed
qed

lemma inv_sendMessage:
  "registryInvariant st \<Longrightarrow> registryInvariant (snd (sendMessage f vid target msg isGroup now st))"
  "registryInvariant st \<Longrightarrow> registryInvariant (snd (sendMessage2 f vid target msg isGroup now st))"
  by (auto simp: sendMessage_def sendMessage2_def Let_def saveConversation_def
      registryInvariant_def split: option.splits sum.splits conversation_file.splits)

lemma inv_retryLoop:
  "registryInvariant st \<Longrightarrow> \<forall>e \<in> set es. retryEligible (snd e) \<Longrightarrow>
     registryInvariant (retryLoop es st)"
proof (induction es arbitrary: st)
  case Nil
  then show ?case by simp
next
  case (Cons e es)
  obtain i v where e: "e = (i, v)" by (cases e)
  from Cons.prems e have "reconnectAttempts (retried v) \<le> 3"
    by (simp add: retryEligible_def retried_def)
  with Cons.prems(1)
  have "registryInvariant (updateMetrics (st\<lparr>vendors := AList.update i (retried v) (vendors st)\<rparr>))"
    by (simp add: inv_simps)
  with Cons e show ?case by simp
qed

lemma inv_retryLoop2:
  "registryInvariant st \<Longrightarrow> \<forall>e \<in> set es. retryEligible (snd e) \<Longrightarrow>
     registryInvariant (retryLoop2 es st)"
proof (induction es arbitrary: st)
  case Nil
  then show ?case by simp
next
  case (Cons e es)
  obtain i v where e: "e = (i, v)" by (cases e)
  from Cons.prems e have "reconnectAttempts (retried v) \<le> 3"
    by (simp add: retryEligible_def retried_def)
  with Cons.prems(1)
  have "registryInvariant (saveVendorsToFile2 (updateMetrics
          (st\<lparr>vendors := AList.update i (retried v) (vendors st)\<rparr>)))"
    by (simp add: inv_simps)
  with Cons e show ?case by simp
qed

lemma inv_retrySweep:
  "registryInvariant st \<Longrightarrow> registryInvariant (retrySweep st)"
  "registryInvariant st \<Longrightarrow> registryInvariant (retrySweep2 st)"
  by (auto simp: retrySweep_def retrySweep2_def intro!: inv_retryLoop inv_retryLoop2)

lemma portOrAvailable_vendors:
  "portOrAvailable bp v st = Inr (p, st') \<Longrightarrow> vendors st' = vendors st"
  by (auto simp: portOrAvailable_def split: if_splits sum.splits)

lemma portOrAvailable_closures:
  "portOrAvailable bp v st = Inr (p, st') \<Longrightarrow> closures st' = closures st"
  by (auto simp: portOrAvailable_def split: if_splits sum.splits)

lemma inv_qrRefresh:
  assumes "registryInvariant st" and "reconnectAttempts captured \<le> 3"
  shows "registryInvariant (qrRefresh bp i captured st)"
proof -
  let ?st1 = "cleanupVendor2 i st"
  have i1: "registryInvariant ?st1" using assms(1) by (rule inv_cleanupVendor2)
  show ?thesis
  proof (cases "portOrAvailable bp captured ?st1")
    case (Inl e)
    with i1 show ?thesis by (simp add: qrRefresh_def)
  next
    case (Inr r)
    obtain prt st2 where r: "r = (prt, st2)" by (cases r)
    from Inr r have "vendors st2 = vendors ?st1" "closures st2 = closures ?st1"
      by (auto dest: portOrAvailable_vendors portOrAvailable_closures)
    with i1 have i2: "registryInvariant st2" by (rule inv_same)
    let ?st3 = "st2\<lparr>providers := providers st2 + 1\<rparr>"
    let ?st4 = "(detach i ?st3)\<lparr>vendors :=
        AList.update i (captured\<lparr>provider := providers st2, status := pending\<rparr>) (vendors ?st3)\<rparr>"
    from i2 have i3: "registryInvariant ?st3" by (rule inv_same) simp_all
    have i4: "registryInvariant ?st4"
      using i3 assms(2) by (intro inv_set) simp_all
    show ?thesis
    proof (cases "portOrAvailable bp captured ?st4")
      case (Inl e)
      with Inr r i4 show ?thesis by (simp add: qrRefresh_def Let_def)
    next
      case (Inr r')
      obtain prt2 st5 where r': "r' = (prt2, st5)" by (cases r')
      from Inr r' have "vendors st5 = vendors ?st4" "closures st5 = closures ?st4"
        by (auto dest: portOrAvailable_vendors portOrAvailable_closures)
      with i4 have "registryInvariant st5" by (rule inv_same)
      then have "registryInvariant (st5\<lparr>httpServers := httpServers st5 @ [prt2]\<rparr>)"
        by (simp add: registryInvariant_def)
      with \<open>portOrAvailable bp captured ?st1 = Inr r\<close> r Inr r' show ?thesis
        by (simp add: qrRefresh_def Let_def)
    qed
  qed
qed

lemma inv_restoreLoop:
  "registryInvariant st \<Longrightarrow> registryInvariant (restoreLoop bp ps st)"
proof (induction ps arbitrary: st)
  case Nil
  then show ?case by simp
next
  case (Cons s ps)
  show ?case
  proof (cases "p_status s = connected")
    case False
    with Cons show ?thesis by simp
  next
    case True
    show ?thesis
    proof (cases "getAvailablePort bp (usedPorts st)")
      case (Inl e)
      with True Cons show ?thesis by simp
    next
      case (Inr r)
      obtain prt used' where r: "r = (prt, used')" by (cases r)
      let ?v = "\<lparr>vendorId = p_id s, provider = providers st, phoneNumber = p_phoneNumber s,
                 name = p_name s, status = p_status s, qr = None,
                 lastConnection = map_option IsoString (p_lastConnection s),
                 reconnectAttempts = 0,
                 port = prt, assignedNumber = p_assignedNumber s\<rparr>"
      let ?st1 = "st\<lparr>usedPorts := used', providers := providers st + 1\<rparr>"
      let ?st2 = "(detach (p_id s) ?st1)\<lparr>vendors := AList.update (p_id s) ?v (vendors ?st1)\<rparr>"
      from Cons.prems have "registryInvariant ?st1" by (rule inv_same) simp_all
      then have "registryInvariant ?st2" by (intro inv_set) simp_all
      then have "registryInvariant (?st2\<lparr>httpServers := httpServers ?st2 @ [prt]\<rparr>)"
        by (rule inv_same) simp_all
      then have "registryInvariant (restoreLoop bp ps (?st2\<lparr>httpServers := httpServers ?st2 @ [prt]\<rparr>))"
        by (rule Cons.IH)
      with True Inr r show ?thesis by (simp add: Let_def)
    qed
  qed
qed

lemma inv_variant2:
  assumes "registryInvariant st"
  shows "registryInvariant (snd (deleteVendor2 i st))"
    and "registryInvariant (snd (updateVendor2 i nm phone st))"
proof -
  from inv_cleanupVendor2 [OF assms, of i]
  have "registryInvariant (saveVendorsToFile2 (cleanupVendor2 i st))"
    by (rule inv_same) simp_all
  with assms show "registryInvariant (snd (deleteVendor2 i st))"
    by (cases "map_of (vendors st) i") (simp_all add: deleteVendor2_def)
  show "registryInvariant (snd (updateVendor2 i nm phone st))"
  proof (cases "map_of (vendors st) i")
    case None
    with assms show ?thesis by (simp add: updateVendor2_def)
  next
    case (Some v)
    from assms Some have "reconnectAttempts v \<le> 3" by (rule inv_lookup)
    then have "reconnectAttempts (v\<lparr>name := (if nm \<noteq> [] then nm else name v)\<rparr>) \<le> 3" by simp
    with assms have "registryInvariant ((detach i st)\<lparr>vendors :=
        AList.update i (v\<lparr>name := (if nm \<noteq> [] then nm else name v)\<rparr>) (vendors st)\<rparr>)"
      by (rule inv_set)
    then have "registryInvariant (saveVendorsToFile2 ((detach i st)\<lparr>vendors :=
        AList.update i (v\<lparr>name := (if nm \<noteq> [] then nm else name v)\<rparr>) (vendors st)\<rparr>))"
      by (rule inv_same) simp_all
    with assms Some show ?thesis by (simp add: updateVendor2_def)
  qed
qed

lemma vendors_broadcastLoop:
  "vendors (snd (broadcastLoop f tn msg now vs (rs, st))) = vendors st"
proof (induction vs arbitrary: rs st)
  case Nil
  show ?case by simp
next
  case (Cons a vs)
  obtain i v where a: "a = (i, v)" by (cases a)
  show ?case
    unfolding a
    by (auto simp: Let_def Cons.IH saveConversation_def
        split: option.splits sum.splits conversation_file.splits)
qed

lemma closures_broadcastLoop:
  "closures (snd (broadcastLoop f tn msg now vs (rs, st))) = closures st"
proof (induction vs arbitrary: rs st)
  case Nil
  show ?case by simp
next
  case (Cons a vs)
  obtain i v where a: "a = (i, v)" by (cases a)
  show ?case
    unfolding a
    by (auto simp: Let_def Cons.IH saveConversation_def
        split: option.splits sum.splits conversation_file.splits)
qed

lemma inv_step: "registryInvariant st \<Longrightarrow> registryInvariant (step bp st e)"
proof (cases e)
  case (Broadcast f tn msg now)
  assume "registryInvariant st"
  then show ?thesis
    unfolding Broadcast
    by (rule inv_same) (simp_all add: broadcast_def vendors_broadcastLoop closures_broadcastLoop)
qed (simp_all add: inv_registerVendor inv_events inv_sendMessage inv_retrySweep
      deleteVendor_def inv_cleanupVendor)

lemma inv_step2: "registryInvariant st \<Longrightarrow> registryInvariant (step2 bp st e)"
proof (cases e)
  case (QrRefresh2 p i captured)
  assume inv: "registryInvariant st"
  show ?thesis
  proof (cases "p \<in> set (intervals st) \<and> capturedVendor st p i = Some captured")
    case True
    with inv have "reconnectAttempts captured \<le> 3" by (auto dest: inv_captured)
    with inv have "registryInvariant (qrRefresh bp i captured st)" by (rule inv_qrRefresh)
    with True show ?thesis unfolding QrRefresh2 by simp
  next
    case False
    with inv show ?thesis unfolding QrRefresh2 by auto
  qed
qed (simp_all add: inv_registerVendor2 inv_events2 inv_sendMessage inv_retrySweep
      inv_variant2 inv_restoreLoop initializeExistingVendors_def)

lemma inv_run: "registryInvariant st \<Longrightarrow> registryInvariant (run bp evs st)"
  unfolding run_def by (induction evs arbitrary: st) (simp_all add: inv_step)

lemma inv_run2: "registryInvariant st \<Longrightarrow> registryInvariant (run2 bp evs st)"
  unfolding run2_def by (induction evs arbitrary: st) (simp_all add: inv_step2)

lemma inv_initial: "registryInvariant (initial f c)"
  by (simp add: registryInvariant_def initial_def)

section \<open>The retry sweep\<close>

text \<open>Writing a value under a key that the map holds replaces the entry in
  place; the loop of the sweep therefore rewrites exactly the entries it was
  given.\<close>

lemma update_present:
  "distinct (map fst m) \<Longrightarrow> (k, v) \<in> set m \<Longrightarrow>
     AList.update k w m = map (\<lambda>(k', v'). if k' = k then (k, w) else (k', v')) m"
proof (induction m)
  case Nil
  then show ?case by simp
next
  case (Cons a m)
  obtain k0 v0 where a: "a = (k0, v0)" by (cases a)
  show ?case
  proof (cases "k0 = k")
    case True
    with Cons.prems a have "k \<notin> fst ` set m" by simp
    then have "map (\<lambda>(k', v'). if k' = k then (k, w) else (k', v')) m = m"
      by (intro map_idI) (auto simp: image_iff)
    with True a show ?thesis by simp
  next
    case False
    with Cons a show ?thesis by auto
  qed
qed

lemma update_entries:
  "distinct (map fst m) \<Longrightarrow> distinct (map fst es) \<Longrightarrow> set es \<subseteq> set m \<Longrightarrow>
     foldl (\<lambda>m (i, v). AList.update i (f v) m) m es =
       map (\<lambda>(i, v). if (i, v) \<in> set es then (i, f v) else (i, v)) m"
proof (induction es arbitrary: m)
  case Nil
  then show ?case by simp
next
  case (Cons e es)
  obtain k v where e: "e = (k, v)" by (cases e)
  let ?h = "\<lambda>(k', v'). if k' = k then (k, f v) else (k', v')"
  let ?m = "AList.update k (f v) m"
  from Cons.prems e have kv: "(k, v) \<in> set m" and fresh: "k \<notin> fst ` set es"
    and des: "distinct (map fst es)" by auto
  have m': "?m = map ?h m" using Cons.prems(1) kv by (rule update_present)
  have keys: "map fst ?m = map fst m" unfolding m' by (simp add: o_def split_def)
  have sub: "set es \<subseteq> set ?m"
  proof
    fix x assume x: "x \<in> set es"
    with Cons.prems(3) have xm: "x \<in> set m" by auto
    from x fresh have "fst x \<noteq> k" by (auto simp: image_iff)
    then have hx: "?h x = x" by (cases x) simp
    from xm have "?h x \<in> ?h ` set m" by (rule imageI)
    then have "x \<in> set (map ?h m)" unfolding hx by simp
    then show "x \<in> set ?m" by (simp only: m')
  qed
  have "foldl (\<lambda>m (i, v). AList.update i (f v) m) m (e # es) =
        foldl (\<lambda>m (i, v). AList.update i (f v) m) ?m es"
    by (simp add: e)
  also have "\<dots> = map (\<lambda>(i, v). if (i, v) \<in> set es then (i, f v) else (i, v)) ?m"
    using Cons.IH [of ?m] Cons.prems(1) des sub keys by simp
  also have "\<dots> = map (\<lambda>(i, v). if (i, v) \<in> set (e # es) then (i, f v) else (i, v)) m"
    unfolding m' map_map
  proof (rule map_cong [OF refl])
    fix x assume xm: "x \<in> set m"
    obtain k' v' where x: "x = (k', v')" by (cases x)
    show "((\<lambda>(i, v). if (i, v) \<in> set es then (i, f v) else (i, v)) \<circ> ?h) x =
          (case x of (i, v) \<Rightarrow> if (i, v) \<in> set (e # es) then (i, f v) else (i, v))"
    proof (cases "k' = k")
      case True
      with xm x kv Cons.prems(1) have "v' = v"
        using eq_key_imp_eq_value [of m k v' v] by simp
      moreover from fresh have "(k, f v) \<notin> set es" by (auto simp: image_iff)
      ultimately show ?thesis using True x e by simp
    next
      case False
      with x e show ?thesis by auto
    qed
  qed
  finally show ?case .
qed

lemma vendors_retryLoop:
  "vendors (retryLoop es st) = foldl (\<lambda>m (i, v). AList.update i (retried v) m) (vendors st) es"
  by (induction es arbitrary: st) auto

lemma vendors_retryLoop2:
  "vendors (retryLoop2 es st) = foldl (\<lambda>m (i, v). AList.update i (retried v) m) (vendors st) es"
  by (induction es arbitrary: st) auto

lemma sweep_entries:
  assumes "distinct (map fst m)"
  shows "foldl (\<lambda>m (i, v). AList.update i (retried v) m) m (filter (\<lambda>(i, v). retryEligible v) m) =
         map (\<lambda>(i, v). (i, if retryEligible v then retried v else v)) m"
proof -
  have "foldl (\<lambda>m (i, v). AList.update i (retried v) m) m (filter (\<lambda>(i, v). retryEligible v) m) =
        map (\<lambda>(i, v). if (i, v) \<in> set (filter (\<lambda>(i, v). retryEligible v) m)
                       then (i, retried v) else (i, v)) m"
    using assms by (intro update_entries) (simp_all add: distinct_map_filter)
  also have "\<dots> = map (\<lambda>(i, v). (i, if retryEligible v then retried v else v)) m"
    by (rule map_cong [OF refl]) auto
  finally show ?thesis .
qed

lemma retryLoop_frame:
  "usedPorts (retryLoop es st) = usedPorts st \<and> providers (retryLoop es st) = providers st \<and>
   intervals (retryLoop es st) = intervals st \<and> httpServers (retryLoop es st) = httpServers st"
  by (induction es arbitrary: st) (auto simp: updateMetrics_def)

lemma retryLoop2_frame:
  "usedPorts (retryLoop2 es st) = usedPorts st \<and> providers (retryLoop2 es st) = providers st \<and>
   intervals (retryLoop2 es st) = intervals st \<and> httpServers (retryLoop2 es st) = httpServers st"
  by (induction es arbitrary: st) (auto simp: updateMetrics_def saveVendorsToFile2_def)

text \<open>
  \<^bold>\<open>C4\<close> as stated fails: the sweep moves the disconnected vendor of
  \<open>disconnectedState\<close> to \<open>pending\<close> with one more attempt, but the vendor keeps
  the provider it had and no provider is created, whereas a registration in
  the same state creates one.
\<close>

theorem C4_sweep_provisions_nothing:
  "map_of (vendors disconnectedState) ''a'' = Some disconnectedVendor \<and>
   map_of (vendors (retrySweep disconnectedState)) ''a'' =
     Some (disconnectedVendor\<lparr>reconnectAttempts := 1, status := pending\<rparr>) \<and>
   provider (disconnectedVendor\<lparr>reconnectAttempts := 1, status := pending\<rparr>) =
     provider disconnectedVendor \<and>
   providers (retrySweep disconnectedState) = providers disconnectedState \<and>
   httpServers (retrySweep disconnectedState) = httpServers disconnectedState \<and>
   providers (snd (registerVendor 3008 ''B'' ''522'' ''b'' disconnectedState)) =
     providers disconnectedState + 1"
  by (simp add: disconnectedState_eq retrySweep_def retryEligible_def retried_def
      disconnectedVendor_def updateMetrics_def registerVendor_def alreadyRegistered_def
      loadVendorsFromFile_def toPersisted_def MAX_CONCURRENT_CONNECTIONS_def
      getAvailablePort_one)

text \<open>
  \<^bold>\<open>C4\<close>, amended.  On a registry whose keys are distinct (as those of a
  \<^verbatim>\<open>Map\<close> are), a retry sweep of either variant rewrites exactly the vendors
  that are disconnected with fewer than 3 attempts: their attempts go up by
  one and their status becomes pending, every other field and every other
  vendor (those with 3 attempts or more among them) is left as it was.  The
  sweep creates no provider, reserves or releases no port, starts no server
  and touches no interval: the move to pending provisions nothing.  If no
  vendor has more than 3 attempts before a sweep, none has after it.  In
  every state that either variant reaches from a fresh process, whatever the
  events (the firing of refresh intervals, which put back the vendor object
  that they closed over, among them), the keys of the registry are distinct
  and no vendor has more than 3 attempts.
\<close>

theorem C4_retry_sweep:
  assumes "distinct (map fst (vendors st))"
  shows "vendors (retrySweep st) =
           map (\<lambda>(i, v). (i, if status v = disconnected \<and> reconnectAttempts v < 3
                              then v\<lparr>reconnectAttempts := reconnectAttempts v + 1, status := pending\<rparr>
                              else v)) (vendors st) \<and>
         vendors (retrySweep2 st) = vendors (retrySweep st) \<and>
         providers (retrySweep st) = providers st \<and> providers (retrySweep2 st) = providers st \<and>
         usedPorts (retrySweep st) = usedPorts st \<and> usedPorts (retrySweep2 st) = usedPorts st \<and>
         intervals (retrySweep2 st) = intervals st \<and>
         httpServers (retrySweep st) = httpServers st \<and> httpServers (retrySweep2 st) = httpServers st \<and>
         ((\<forall>e \<in> set (vendors st). reconnectAttempts (snd e) \<le> 3) \<longrightarrow>
          (\<forall>e \<in> set (vendors (retrySweep st)). reconnectAttempts (snd e) \<le> 3)) \<and>
         distinct (map fst (vendors (run bp evs (initial f c)))) \<and>
         (\<forall>e \<in> set (vendors (run bp evs (initial f c))). reconnectAttempts (snd e) \<le> 3) \<and>
         distinct (map fst (vendors (run2 bp evs' (initial f c)))) \<and>
         (\<forall>e \<in> set (vendors (run2 bp evs' (initial f c))). reconnectAttempts (snd e) \<le> 3)"
proof -
  have v1: "vendors (retrySweep st) =
      map (\<lambda>(i, v). (i, if retryEligible v then retried v else v)) (vendors st)"
    unfolding retrySweep_def vendors_retryLoop using assms by (rule sweep_entries)
  have v2: "vendors (retrySweep2 st) =
      map (\<lambda>(i, v). (i, if retryEligible v then retried v else v)) (vendors st)"
    unfolding retrySweep2_def vendors_retryLoop2 using assms by (rule sweep_entries)
  have bound: "\<forall>e \<in> set (vendors (retrySweep st)). reconnectAttempts (snd e) \<le> 3"
    if "\<forall>e \<in> set (vendors st). reconnectAttempts (snd e) \<le> 3"
    using that unfolding v1 by (auto simp: retryEligible_def retried_def)
  have e1: "vendors (retrySweep st) =
      map (\<lambda>(i, v). (i, if status v = disconnected \<and> reconnectAttempts v < 3
                         then v\<lparr>reconnectAttempts := reconnectAttempts v + 1, status := pending\<rparr>
                         else v)) (vendors st)"
    unfolding v1 retryEligible_def retried_def by simp
  have e2: "vendors (retrySweep2 st) = vendors (retrySweep st)"
    unfolding v1 v2 by simp
  have f1: "providers (retrySweep st) = providers st \<and> usedPorts (retrySweep st) = usedPorts st \<and>
      httpServers (retrySweep st) = httpServers st"
    unfolding retrySweep_def using retryLoop_frame by blast
  have f2: "providers (retrySweep2 st) = providers st \<and> usedPorts (retrySweep2 st) = usedPorts st \<and>
      intervals (retrySweep2 st) = intervals st \<and> httpServers (retrySweep2 st) = httpServers st"
    unfolding retrySweep2_def using retryLoop2_frame by blast
  have r1: "distinct (map fst (vendors (run bp evs (initial f c)))) \<and>
      (\<forall>e \<in> set (vendors (run bp evs (initial f c))). reconnectAttempts (snd e) \<le> 3)"
    using inv_run [OF inv_initial, of bp evs f c]
    by (simp add: registryInvariant_def list_all_iff)
  have r2: "distinct (map fst (vendors (run2 bp evs' (initial f c)))) \<and>
      (\<forall>e \<in> set (vendors (run2 bp evs' (initial f c))). reconnectAttempts (snd e) \<le> 3)"
    using inv_run2 [OF inv_initial, of bp evs' f c]
    by (simp add: registryInvariant_def list_all_iff)
  from e1 e2 f1 f2 bound r1 r2 show ?thesis by blast
qed

theorem C4_retry_sweep_witness:
  "distinct (map fst (vendors disconnectedState)) \<and>
   vendors (retrySweep disconnectedState) =
     [(''a'', disconnectedVendor\<lparr>reconnectAttempts := 1, status := pending\<rparr>)] \<and>
   vendors (retrySweep2 disconnectedState) = vendors (retrySweep disconnectedState) \<and>
   providers (retrySweep2 disconnectedState) = 1 \<and>
   list_all (\<lambda>e. reconnectAttempts (snd e) \<le> 3)
     (vendors (run2 3008
        [Register2 ''A'' ''521'' ''a'', Qr2 0 ''a'' ''code'', QrRefresh2 0 ''a'' pendingVendor]
        fresh))"
proof -
  have d: "distinct (map fst (vendors disconnectedState))"
    by (simp add: disconnectedState_eq)
  from C4_retry_sweep [OF d, where bp = 3008 and f = Absent and c = "\<lambda>_. NoConversation" and
      evs' = "[Register2 ''A'' ''521'' ''a'', Qr2 0 ''a'' ''code'', QrRefresh2 0 ''a'' pendingVendor]"]
    d
  show ?thesis
    by (simp add: disconnectedState_eq disconnectedVendor_def fresh_def list_all_iff)
qed

section \<open>The persistence store\<close>

lemmas iso_defs = toISOString_def civilFromDays_def civilFromDayOfEra_def
  civilFromYearOfEra_def civilFromDayOfYear_def civilFromMonth_def isoDate_def isoTime_def
  pad2_def pad3_def pad4_def pad6_def digit_def

text \<open>
  \<^bold>\<open>C5\<close> as stated fails, for two of the seven fields.  The snapshot of
  variant 1 has no \<open>port\<close> key: loading it back gives no port for the vendor
  of \<open>pendingState\<close>, whose port is 3108.  And in both variants the last
  connection of a vendor that became connected in this process is a \<^verbatim>\<open>Date\<close>,
  which the snapshot holds as text: for the vendor of \<open>connectedState2\<close>,
  connected at time 7, loading gives the string \<^verbatim>\<open>1970-01-01T00:00:00.007Z\<close>,
  which is not the vendor's field.
\<close>

theorem C5_round_trip_loses_port_and_date:
  "map (port \<circ> snd) (vendors pendingState) = [3108] \<and>
   map p_port (loadVendorsFromFile (saveVendorsToFile pendingState)) = [None] \<and>
   map (lastConnection \<circ> snd) (vendors connectedState2) = [Some (Date 7)] \<and>
   map p_lastConnection (loadVendorsFromFile (saveVendorsToFile2 connectedState2)) =
     [Some ''1970-01-01T00:00:00.007Z''] \<and>
   map (map_option IsoString \<circ> p_lastConnection)
       (loadVendorsFromFile (saveVendorsToFile2 connectedState2)) \<noteq>
     map (lastConnection \<circ> snd) (vendors connectedState2)"
proof -
  have iso: "toISOString 7 = ''1970-01-01T00:00:00.007Z''"
    by (simp add: iso_defs)
  show ?thesis
    by (simp add: pendingState_eq connectedState2_eq pendingVendor_def saveVendorsToFile_def
        saveVendorsToFile2_def loadVendorsFromFile_def toPersisted_def toPersisted2_def iso)
qed

text \<open>
  \<^bold>\<open>C5\<close>, amended.  For every registry state, writing the snapshot and
  loading it back gives, in the order of the registry, one record per
  registered vendor.  In variant 2 the record has the seven keys: \<open>id\<close>,
  \<open>name\<close>, \<open>phoneNumber\<close>, \<open>assignedNumber\<close>, \<open>status\<close> and \<open>port\<close> are the
  vendor's fields, and \<open>lastConnection\<close> is the vendor's last connection as
  \<^verbatim>\<open>JSON.stringify\<close> writes it: the ISO string of a \<^verbatim>\<open>Date\<close>, a string as it
  is, and nothing when the vendor has none.  In variant 1 the record has the
  first six of these keys and no port.  Hence the last connections come back
  as the vendors hold them exactly when no vendor holds a \<^verbatim>\<open>Date\<close>, as is
  the case for vendors restored at start-up that have not become ready
  since.  Writing the snapshot leaves the registry as it was.
\<close>

theorem C5_snapshot_load_round_trip:
  "loadVendorsFromFile (saveVendorsToFile2 st) =
     map (\<lambda>v. \<lparr>p_id = vendorId v, p_name = name v, p_phoneNumber = phoneNumber v,
               p_assignedNumber = assignedNumber v, p_status = status v,
               p_lastConnection =
                 (case lastConnection v of
                    None \<Rightarrow> None
                  | Some (Date ms) \<Rightarrow> Some (toISOString ms)
                  | Some (IsoString s) \<Rightarrow> Some s),
               p_port = Some (port v)\<rparr>)
       (map snd (vendors st)) \<and>
   loadVendorsFromFile (saveVendorsToFile st) =
     map (\<lambda>r. r\<lparr>p_port := None\<rparr>) (loadVendorsFromFile (saveVendorsToFile2 st)) \<and>
   ((map (map_option IsoString \<circ> p_lastConnection) (loadVendorsFromFile (saveVendorsToFile2 st)) =
       map (lastConnection \<circ> snd) (vendors st)) =
    (\<forall>e \<in> set (vendors st). \<forall>ms. lastConnection (snd e) \<noteq> Some (Date ms))) \<and>
   vendors (saveVendorsToFile2 st) = vendors st \<and>
   vendors (saveVendorsToFile st) = vendors st"
proof -
  have json: "map_option toJSON l =
      (case l of None \<Rightarrow> None | Some (Date ms) \<Rightarrow> Some (toISOString ms)
       | Some (IsoString s) \<Rightarrow> Some s)" for l
    by (cases l) (simp_all split: timestamp.split)
  have same: "(map_option IsoString (map_option toJSON l) = l) = (\<forall>ms. l \<noteq> Some (Date ms))" for l
  proof (cases l)
    case None
    then show ?thesis by simp
  next
    case (Some t)
    then show ?thesis by (cases t) simp_all
  qed
  have load2: "loadVendorsFromFile (saveVendorsToFile2 st) = map toPersisted2 (map snd (vendors st))"
    by (simp add: saveVendorsToFile2_def loadVendorsFromFile_def)
  have load1: "loadVendorsFromFile (saveVendorsToFile st) = map toPersisted (map snd (vendors st))"
    by (simp add: saveVendorsToFile_def loadVendorsFromFile_def)
  have a: "loadVendorsFromFile (saveVendorsToFile2 st) =
     map (\<lambda>v. \<lparr>p_id = vendorId v, p_name = name v, p_phoneNumber = phoneNumber v,
               p_assignedNumber = assignedNumber v, p_status = status v,
               p_lastConnection =
                 (case lastConnection v of
                    None \<Rightarrow> None
                  | Some (Date ms) \<Rightarrow> Some (toISOString ms)
                  | Some (IsoString s) \<Rightarrow> Some s),
               p_port = Some (port v)\<rparr>)
       (map snd (vendors st))"
    unfolding load2 by (simp add: toPersisted2_def json)
  have b: "loadVendorsFromFile (saveVendorsToFile st) =
     map (\<lambda>r. r\<lparr>p_port := None\<rparr>) (loadVendorsFromFile (saveVendorsToFile2 st))"
    unfolding load1 load2 by (simp add: toPersisted_def toPersisted2_def)
  have c: "(map (map_option IsoString \<circ> p_lastConnection) (loadVendorsFromFile (saveVendorsToFile2 st)) =
       map (lastConnection \<circ> snd) (vendors st)) =
    (\<forall>e \<in> set (vendors st). \<forall>ms. lastConnection (snd e) \<noteq> Some (Date ms))"
    unfolding load2 by (simp add: toPersisted2_def same)
  from a b c show ?thesis by simp
qed

theorem C5_snapshot_load_round_trip_witness:
  "list_all (\<lambda>e. \<forall>ms. lastConnection (snd e) \<noteq> Some (Date ms)) (vendors restartedState) \<and>
   map (map_option IsoString \<circ> p_lastConnection)
       (loadVendorsFromFile (saveVendorsToFile2 restartedState)) =
     [Some (IsoString ''2024-05-01T10:00:00.000Z'')] \<and>
   map (lastConnection \<circ> snd) (vendors restartedState) =
     [Some (IsoString ''2024-05-01T10:00:00.000Z'')] \<and>
   loadVendorsFromFile (saveVendorsToFile2 restartedState) = [storedA\<lparr>p_port := Some 3108\<rparr>]"
  using C5_snapshot_load_round_trip [of restartedState]
  by (simp add: restartedState_eq storedA_def)

section \<open>The code refresh\<close>

text \<open>
  \<^bold>\<open>C6.\<close>  The code evaluated where the claim fails.  In \<open>pendingState2\<close>
  vendor \<open>a\<close> is pending on port 3108, the port is reserved, one connection
  is counted and the interval of its subscription is live.  When the
  interval fires, the vendor is registered again with a new provider on port
  3108, but the cleanup has released the port and nothing reserves it again:
  the pool is empty, the connection count is 0, the file lists no vendor and
  the interval of the old subscription is still live.  A registration that
  follows is given port 3108 as well.
\<close>

theorem C6_refresh_loses_reservation:
  "map_of (vendors pendingState2) ''a'' = Some pendingVendor \<and>
   usedPorts pendingState2 = [3108] \<and>
   totalConnections (metrics pendingState2) = 1 \<and>
   intervals pendingState2 = [0] \<and>
   map_of (vendors (step2 3008 pendingState2 (QrRefresh2 0 ''a'' pendingVendor))) ''a'' =
     Some (pendingVendor\<lparr>provider := 1\<rparr>) \<and>
   port (pendingVendor\<lparr>provider := 1\<rparr>) = 3108 \<and>
   usedPorts (step2 3008 pendingState2 (QrRefresh2 0 ''a'' pendingVendor)) = [] \<and>
   totalConnections (metrics (step2 3008 pendingState2 (QrRefresh2 0 ''a'' pendingVendor))) = 0 \<and>
   vendorsFile (step2 3008 pendingState2 (QrRefresh2 0 ''a'' pendingVendor)) = Stored [] \<and>
   intervals (step2 3008 pendingState2 (QrRefresh2 0 ''a'' pendingVendor)) = [0] \<and>
   fst (registerVendor2 3008 ''B'' ''522'' ''b''
         (step2 3008 pendingState2 (QrRefresh2 0 ''a'' pendingVendor))) = Registered ''b'' 3108"
  unfolding refresh_pendingState2
  by (simp add: pendingState2_eq pendingVendor_def registerVendor2_def alreadyRegistered_def
      loadVendorsFromFile_def getAvailablePort_empty MAX_CONCURRENT_CONNECTIONS_def Let_def)

section \<open>Cleaning up twice\<close>






text \<open>An id that is not in the registry stays out of it as long as no event
  inserts it.\<close>

lemma absent_update: "k \<noteq> i \<Longrightarrow> map_of m i = None \<Longrightarrow> map_of (AList.update k v m) i = None"
  by (simp add: update_conv')










lemma absent_set:
  "k \<noteq> i \<Longrightarrow> map_of (vendors st) i = None \<Longrightarrow>
     map_of (vendors ((detach k st)\<lparr>vendors := AList.update k v (vendors st)\<rparr>)) i = None"
  by (simp add: absent_update)








text \<open>The firing of a refresh interval is among the events excluded above,
  and neither cleanup nor deletion clears the interval of the vendor they
  remove.  In variant 2, after the vendor of \<open>pendingState2\<close> is deleted and a
  vendor \<open>b\<close> has registered on the released port 3108, the interval of the
  deleted vendor fires and puts it back on port 3108; a second deletion then
  finds it, answers ok and releases the port that \<open>b\<close> holds.\<close>

lemma refresh_after_delete_reinserts:
  "map_of (vendors (run2 3008 [Delete2 ''a'', Register2 ''B'' ''522'' ''b'',
                               QrRefresh2 0 ''a'' pendingVendor] pendingState2)) ''a'' =
     Some (pendingVendor\<lparr>provider := 2\<rparr>) \<and>
   map (port \<circ> snd) (vendors (run2 3008 [Delete2 ''a'', Register2 ''B'' ''522'' ''b'',
                                          QrRefresh2 0 ''a'' pendingVendor] pendingState2)) =
     [3108, 3108] \<and>
   usedPorts (run2 3008 [Delete2 ''a'', Register2 ''B'' ''522'' ''b'',
                         QrRefresh2 0 ''a'' pendingVendor] pendingState2) = [3108] \<and>
   fst (deleteVendor2 ''a'' (run2 3008 [Delete2 ''a'', Register2 ''B'' ''522'' ''b'',
                                        QrRefresh2 0 ''a'' pendingVendor] pendingState2)) =
     Success \<and>
   usedPorts (snd (deleteVendor2 ''a'' (run2 3008 [Delete2 ''a'', Register2 ''B'' ''522'' ''b'',
                                        QrRefresh2 0 ''a'' pendingVendor] pendingState2))) = [] \<and>
   map (port \<circ> snd) (vendors (snd (deleteVendor2 ''a''
       (run2 3008 [Delete2 ''a'', Register2 ''B'' ''522'' ''b'',
                   QrRefresh2 0 ''a'' pendingVendor] pendingState2)))) = [3108]"
proof -
  have deleted: "step2 3008 pendingState2 (Delete2 ''a'') =
     \<lparr>vendors = [], usedPorts = [],
      metrics = \<lparr>totalConnections = 0, activeConnections = 0,
                 pendingConnections = 0, failedConnections = 0\<rparr>,
      vendorsFile = Stored [], conversations = (\<lambda>_. NoConversation),
      providers = 1, intervals = [0], closures = [(0, ''a'', Detached pendingVendor)],
      httpServers = [3108], warnings = [], sendAttempts = []\<rparr>"
    by (simp add: pendingState2_eq deleteVendor2_def cleanupVendor2_def Set_delete_def
        updateMetrics_def saveVendorsToFile2_def detach_def pendingVendor_def)
  have fired: "run2 3008 [Delete2 ''a'', Register2 ''B'' ''522'' ''b'',
      QrRefresh2 0 ''a'' pendingVendor] pendingState2 =
     \<lparr>vendors = [(''b'', \<lparr>vendorId = ''b'', provider = 1, phoneNumber = [], name = ''B'',
                           status = pending, qr = None, lastConnection = None,
                           reconnectAttempts = 0, port = 3108, assignedNumber = Some ''522''\<rparr>),
                 (''a'', pendingVendor\<lparr>provider := 2\<rparr>)],
      usedPorts = [3108],
      metrics = \<lparr>totalConnections = 1, activeConnections = 0,
                 pendingConnections = 1, failedConnections = 0\<rparr>,
      vendorsFile = Stored [\<lparr>p_id = ''b'', p_name = ''B'', p_phoneNumber = [],
                             p_assignedNumber = Some ''522'', p_status = pending,
                             p_lastConnection = None, p_port = Some 3108\<rparr>],
      conversations = (\<lambda>_. NoConversation),
      providers = 3, intervals = [0], closures = [(0, ''a'', Detached pendingVendor)],
      httpServers = [3108, 3108, 3108], warnings = [], sendAttempts = []\<rparr>"
    unfolding run2_def foldl.simps deleted
    by (simp add: registerVendor2_def alreadyRegistered_def loadVendorsFromFile_def
        getAvailablePort_empty MAX_CONCURRENT_CONNECTIONS_def capturedVendor_def qrRefresh_def
        cleanupVendor2_def portOrAvailable_def updateMetrics_def saveVendorsToFile2_def
        toPersisted2_def detach_def pendingVendor_def Let_def)
  show ?thesis
    unfolding fired
    by (simp add: deleteVendor2_def cleanupVendor2_def Set_delete_def updateMetrics_def
        saveVendorsToFile2_def detach_def pendingVendor_def)
qed

section \<open>Listing the vendors\<close>

text \<open>One step of the merge keeps the ids of the list when the id is already
  there, and appends it otherwise; it keeps every record with another id and
  puts the in-memory record into the list.\<close>

lemma findIndex_None: "(findIndex P xs = None) = (\<forall>x \<in> set xs. \<not> P x)"
  by (induction xs) auto

lemma findIndex_Some: "findIndex P xs = Some n \<Longrightarrow> n < length xs \<and> P (xs ! n)"
proof (induction xs arbitrary: n)
  case Nil
  then show ?case by simp
next
  case (Cons x xs)
  then show ?case by (cases "P x") (auto split: if_splits)
qed

lemma mergeActive_ids:
  "map p_id (mergeActive xs a) =
     (if p_id a \<in> set (map p_id xs) then map p_id xs else map p_id xs @ [p_id a])"
proof (cases "findIndex (\<lambda>stored. p_id stored = p_id a) xs")
  case None
  then have "p_id a \<notin> set (map p_id xs)"
    by (auto simp: findIndex_None)
  with None show ?thesis by (simp add: mergeActive_def)
next
  case (Some n)
  from findIndex_Some [OF Some] have n: "n < length xs" and eq: "p_id (xs ! n) = p_id a"
    by simp_all
  from n eq have "(map p_id xs)[n := p_id a] = map p_id xs"
    by (simp add: list_update_same_conv)
  moreover from n have "p_id (xs ! n) \<in> p_id ` set xs" by simp
  then have "p_id a \<in> set (map p_id xs)"
    using eq by simp
  ultimately show ?thesis using Some by (simp add: mergeActive_def map_update)
qed

lemma mergeActive_mem: "a \<in> set (mergeActive xs a)"
proof (cases "findIndex (\<lambda>stored. p_id stored = p_id a) xs")
  case None
  then show ?thesis by (simp add: mergeActive_def)
next
  case (Some n)
  from findIndex_Some [OF Some] have "n < length xs" by simp
  with Some show ?thesis by (simp add: mergeActive_def set_update_memI)
qed

lemma mergeActive_keeps:
  assumes "x \<in> set xs" and "p_id x \<noteq> p_id a"
  shows "x \<in> set (mergeActive xs a)"
proof (cases "findIndex (\<lambda>stored. p_id stored = p_id a) xs")
  case None
  with assms show ?thesis by (simp add: mergeActive_def)
next
  case (Some n)
  from findIndex_Some [OF Some] have n: "n < length xs" and eq: "p_id (xs ! n) = p_id a"
    by simp_all
  from assms(1) obtain m where m: "m < length xs" and x: "xs ! m = x"
    by (auto simp: in_set_conv_nth)
  with eq assms(2) have "m \<noteq> n" by auto
  with m x have "xs[n := a] ! m = x" by simp
  with m have "x \<in> set (xs[n := a])"
    using nth_mem [of m "xs[n := a]"] by simp
  with Some show ?thesis by (simp add: mergeActive_def)
qed

lemma merge_ids:
  "distinct (map p_id xs) \<Longrightarrow>
     distinct (map p_id (foldl mergeActive xs as)) \<and>
     set (map p_id (foldl mergeActive xs as)) = set (map p_id xs) \<union> set (map p_id as)"
proof (induction as arbitrary: xs)
  case Nil
  then show ?case by simp
next
  case (Cons a as)
  have d: "distinct (map p_id (mergeActive xs a))"
    using Cons.prems by (simp add: mergeActive_ids)
  have s: "set (map p_id (mergeActive xs a)) = insert (p_id a) (set (map p_id xs))"
    unfolding mergeActive_ids by auto
  from Cons.IH [OF d] s show ?case by auto
qed

lemma merge_keeps:
  "x \<in> set xs \<Longrightarrow> p_id x \<notin> set (map p_id as) \<Longrightarrow> x \<in> set (foldl mergeActive xs as)"
proof (induction as arbitrary: xs)
  case Nil
  then show ?case by simp
next
  case (Cons a as)
  from Cons.prems have "x \<in> set (mergeActive xs a)"
    by (intro mergeActive_keeps) auto
  with Cons show ?case by simp
qed

lemma merge_active:
  "distinct (map p_id as) \<Longrightarrow> a \<in> set as \<Longrightarrow> a \<in> set (foldl mergeActive xs as)"
proof (induction as arbitrary: xs)
  case Nil
  then show ?case by simp
next
  case (Cons b as)
  show ?case
  proof (cases "a = b")
    case True
    from Cons.prems(1) True have "p_id a \<notin> set (map p_id as)" by simp
    with mergeActive_mem [of a xs] have "a \<in> set (foldl mergeActive (mergeActive xs a) as)"
      by (rule merge_keeps)
    with True show ?thesis by simp
  next
    case False
    with Cons show ?thesis by simp
  qed
qed

text \<open>
  \<^bold>\<open>C8\<close> as stated fails for variant 1, whose \<^verbatim>\<open>GET /vendors\<close> returns the
  file alone.  After the retry sweep (which does not write the file) the
  registry holds vendor \<open>a\<close> as pending with one attempt, the list shows it
  as disconnected: the in-memory record does not take precedence.
\<close>

theorem C8_variant1_lists_file_only:
  "map_of (vendors (retrySweep disconnectedState)) ''a'' =
     Some (disconnectedVendor\<lparr>reconnectAttempts := 1, status := pending\<rparr>) \<and>
   map p_id (listVendors (retrySweep disconnectedState)) = [''a''] \<and>
   map p_status (listVendors (retrySweep disconnectedState)) = [disconnected]"
  by (simp add: disconnectedState_eq retrySweep_def retryEligible_def retried_def
      disconnectedVendor_def updateMetrics_def listVendors_def loadVendorsFromFile_def
      toPersisted_def)

text \<open>
  \<^bold>\<open>C8\<close>, amended.  In variant 2, when the ids in the file are distinct and
  the ids of the in-memory vendors are distinct, \<^verbatim>\<open>GET /vendors/\<close> returns a
  list in which every id of either source appears exactly once; the record
  of every in-memory vendor is its seven in-memory fields, and a persisted
  record whose id is not in memory is returned as stored.  In variant 1
  \<^verbatim>\<open>GET /vendors\<close> returns the persisted list as it is.
\<close>

theorem C8_list_merges_by_id:
  assumes "distinct (map p_id (loadVendorsFromFile st))"
    and "distinct (map (vendorId \<circ> snd) (vendors st))"
  shows "distinct (map p_id (listVendors2 st)) \<and>
         set (map p_id (listVendors2 st)) =
           set (map p_id (loadVendorsFromFile st)) \<union> set (map (vendorId \<circ> snd) (vendors st)) \<and>
         (\<forall>e \<in> set (vendors st). toPersisted2 (snd e) \<in> set (listVendors2 st)) \<and>
         (\<forall>s \<in> set (loadVendorsFromFile st).
            p_id s \<notin> set (map (vendorId \<circ> snd) (vendors st)) \<longrightarrow> s \<in> set (listVendors2 st)) \<and>
         listVendors st = loadVendorsFromFile st"
proof -
  let ?as = "map toPersisted2 (map snd (vendors st))"
  have ids: "map p_id ?as = map (vendorId \<circ> snd) (vendors st)"
    by (simp add: toPersisted2_def o_def)
  have a: "distinct (map p_id (listVendors2 st)) \<and>
      set (map p_id (listVendors2 st)) =
        set (map p_id (loadVendorsFromFile st)) \<union> set (map (vendorId \<circ> snd) (vendors st))"
    unfolding listVendors2_def using merge_ids [OF assms(1), of ?as] ids by simp
  have das: "distinct (map p_id ?as)"
    unfolding ids by (rule assms(2))
  have b: "toPersisted2 (snd e) \<in> set (listVendors2 st)" if "e \<in> set (vendors st)" for e
  proof -
    from that have "toPersisted2 (snd e) \<in> set ?as" by simp
    with das show ?thesis unfolding listVendors2_def by (rule merge_active)
  qed
  have c: "s \<in> set (listVendors2 st)"
    if "s \<in> set (loadVendorsFromFile st)" "p_id s \<notin> set (map (vendorId \<circ> snd) (vendors st))" for s
  proof -
    from that(2) have "p_id s \<notin> set (map p_id ?as)" unfolding ids .
    with that(1) show ?thesis unfolding listVendors2_def by (rule merge_keeps)
  qed
  from a b c show ?thesis by (simp add: listVendors_def)
qed

theorem C8_list_merges_by_id_witness:
  "distinct (map p_id (loadVendorsFromFile restartedState)) \<and>
   distinct (map (vendorId \<circ> snd) (vendors restartedState)) \<and>
   map p_id (loadVendorsFromFile restartedState) = [''a'', ''c''] \<and>
   map (vendorId \<circ> snd) (vendors restartedState) = [''a''] \<and>
   listVendors2 restartedState = [storedA\<lparr>p_port := Some 3108\<rparr>, storedC] \<and>
   distinct (map p_id (listVendors2 restartedState)) \<and>
   set (map p_id (listVendors2 restartedState)) = {''a'', ''c''}"
proof -
  have l: "listVendors2 restartedState = [storedA\<lparr>p_port := Some 3108\<rparr>, storedC]"
    by (simp add: restartedState_eq listVendors2_def loadVendorsFromFile_def toPersisted2_def
        mergeActive_def storedA_def storedC_def)
  have d: "distinct (map p_id (loadVendorsFromFile restartedState))"
    "distinct (map (vendorId \<circ> snd) (vendors restartedState))"
    by (simp_all add: restartedState_eq loadVendorsFromFile_def storedA_def storedC_def)
  from C8_list_merges_by_id [OF d] l d show ?thesis
    by (simp add: restartedState_eq loadVendorsFromFile_def storedA_def storedC_def)
qed

section \<open>Broadcast\<close>

text \<open>Appending to a conversation never makes a file corrupt, and changes
  nothing of the state but the conversations.\<close>

lemma saveConversation_Inl:
  "(saveConversation vid uid msg sndr now st = Inl e) =
     (\<exists>m. conversations st (vid, uid) = CorruptConversation m \<and> e = JsonSyntaxError m)"
  by (auto simp: saveConversation_def Let_def split: conversation_file.splits)

lemma saveConversation_Inr:
  assumes "saveConversation vid uid msg sndr now st = Inr st'"
  shows "vendors st' = vendors st" and "usedPorts st' = usedPorts st"
    and "metrics st' = metrics st" and "vendorsFile st' = vendorsFile st"
    and "sendAttempts st' = sendAttempts st"
    and "(\<exists>m. conversations st' k = CorruptConversation m) =
         (\<exists>m. conversations st k = CorruptConversation m)"
    and "conversations st' k = CorruptConversation m \<Longrightarrow> conversations st k = CorruptConversation m"
    and "conversations st k = CorruptConversation m \<Longrightarrow> conversations st' k = CorruptConversation m"
  using assms
  by (auto simp: saveConversation_def Let_def split: conversation_file.splits if_splits)

text \<open>The loop, from any point of its run: the results so far, followed by
  one outcome for each connected vendor that is left.\<close>

lemma broadcastLoop_result:
  "fst (broadcastLoop f tn msg now vs (rs, st)) =
     rs @ map (\<lambda>(i, v).
            case f (provider v) (tn @ ''@s.whatsapp.net'') msg of
              Some err \<Rightarrow> \<lparr>r_vendorId = i, r_success = False, r_error = Some err\<rparr>
            | None \<Rightarrow>
                (case conversations st (i, tn) of
                   CorruptConversation m \<Rightarrow> \<lparr>r_vendorId = i, r_success = False, r_error = Some m\<rparr>
                 | _ \<Rightarrow> \<lparr>r_vendorId = i, r_success = True, r_error = None\<rparr>))
          (filter (\<lambda>(i, v). status v = connected) vs)"
proof (induction vs arbitrary: rs st)
  case Nil
  show ?case by simp
next
  case (Cons a vs)
  obtain i v where a: "a = (i, v)" by (cases a)
  let ?t = "tn @ ''@s.whatsapp.net''"
  let ?st1 = "st\<lparr>sendAttempts := sendAttempts st @ [(provider v, ?t, msg)]\<rparr>"
  let ?g = "\<lambda>c :: string \<times> string \<Rightarrow> conversation_file. \<lambda>(i, v).
            case f (provider v) (tn @ ''@s.whatsapp.net'') msg of
              Some err \<Rightarrow> \<lparr>r_vendorId = i, r_success = False, r_error = Some err\<rparr>
            | None \<Rightarrow>
                (case c (i, tn) of
                   CorruptConversation m \<Rightarrow> \<lparr>r_vendorId = i, r_success = False, r_error = Some m\<rparr>
                 | _ \<Rightarrow> \<lparr>r_vendorId = i, r_success = True, r_error = None\<rparr>)"
  have c1: "conversations ?st1 = conversations st" by simp
  note IH1 = Cons.IH [of _ ?st1, unfolded c1]
  show ?case
  proof (cases "status v = connected")
    case False
    with a Cons.IH [of rs st] show ?thesis by simp
  next
    case True
    show ?thesis
    proof (cases "f (provider v) ?t msg")
      case (Some err)
      with a True IH1 show ?thesis by (simp add: Let_def)
    next
      case None
      show ?thesis
      proof (cases "saveConversation i tn msg bot now ?st1")
        case (Inl e)
        then obtain m where m: "conversations st (i, tn) = CorruptConversation m"
          and e: "e = JsonSyntaxError m"
          by (auto simp: saveConversation_Inl)
        with a True None Inl IH1 show ?thesis by (simp add: Let_def)
      next
        case (Inr st2)
        have ok: "\<not> (\<exists>m. conversations st (i, tn) = CorruptConversation m)"
          using Inr by (auto simp: saveConversation_def Let_def split: conversation_file.splits)
        have same: "map (?g (conversations st2)) (filter (\<lambda>(i, v). status v = connected) vs) =
                    map (?g (conversations st)) (filter (\<lambda>(i, v). status v = connected) vs)"
        proof (rule map_cong [OF refl])
          fix x assume "x \<in> set (filter (\<lambda>(i, v). status v = connected) vs)"
          obtain j w where x: "x = (j, w)" by (cases x)
          have "(case conversations st2 (j, tn) of
                   CorruptConversation m \<Rightarrow> \<lparr>r_vendorId = j, r_success = False, r_error = Some m\<rparr>
                 | _ \<Rightarrow> \<lparr>r_vendorId = j, r_success = True, r_error = None\<rparr>) =
                (case conversations st (j, tn) of
                   CorruptConversation m \<Rightarrow> \<lparr>r_vendorId = j, r_success = False, r_error = Some m\<rparr>
                 | _ \<Rightarrow> \<lparr>r_vendorId = j, r_success = True, r_error = None\<rparr>)"
          proof (cases "\<exists>m. conversations st (j, tn) = CorruptConversation m")
            case True
            then obtain m where m: "conversations st (j, tn) = CorruptConversation m" by blast
            then have "conversations st2 (j, tn) = CorruptConversation m"
              using saveConversation_Inr(8) [OF Inr, of "(j, tn)" m] by simp
            with m show ?thesis by simp
          next
            case False
            then have n1: "conversations st (j, tn) \<noteq> CorruptConversation m" for m by blast
            have n2: "conversations st2 (j, tn) \<noteq> CorruptConversation m" for m
              using saveConversation_Inr(7) [OF Inr, of "(j, tn)" m] n1 [of m] by auto
            have l: "(case conversations st2 (j, tn) of
                   CorruptConversation m \<Rightarrow> \<lparr>r_vendorId = j, r_success = False, r_error = Some m\<rparr>
                 | _ \<Rightarrow> \<lparr>r_vendorId = j, r_success = True, r_error = None\<rparr>) =
                 \<lparr>r_vendorId = j, r_success = True, r_error = None\<rparr>"
              using n2 by (cases "conversations st2 (j, tn)") auto
            have r: "(case conversations st (j, tn) of
                   CorruptConversation m \<Rightarrow> \<lparr>r_vendorId = j, r_success = False, r_error = Some m\<rparr>
                 | _ \<Rightarrow> \<lparr>r_vendorId = j, r_success = True, r_error = None\<rparr>) =
                 \<lparr>r_vendorId = j, r_success = True, r_error = None\<rparr>"
              using n1 by (cases "conversations st (j, tn)") auto
            show ?thesis unfolding l r ..
          qed
          then show "?g (conversations st2) x = ?g (conversations st) x"
            by (simp add: x split: option.split)
        qed
        from ok have this_one: "?g (conversations st) (i, v) =
            \<lparr>r_vendorId = i, r_success = True, r_error = None\<rparr>"
          using None by (cases "conversations st (i, tn)") auto
        from a True None Inr Cons.IH [of _ st2, unfolded same] this_one show ?thesis
          by (simp add: Let_def)
      qed
    qed
  qed
qed

lemma broadcastLoop_frame:
  "vendors (snd (broadcastLoop f tn msg now vs (rs, st))) = vendors st \<and>
   usedPorts (snd (broadcastLoop f tn msg now vs (rs, st))) = usedPorts st \<and>
   metrics (snd (broadcastLoop f tn msg now vs (rs, st))) = metrics st \<and>
   vendorsFile (snd (broadcastLoop f tn msg now vs (rs, st))) = vendorsFile st \<and>
   sendAttempts (snd (broadcastLoop f tn msg now vs (rs, st))) =
     sendAttempts st @ map (\<lambda>(i, v). (provider v, tn @ ''@s.whatsapp.net'', msg))
                        (filter (\<lambda>(i, v). status v = connected) vs)"
proof (induction vs arbitrary: rs st)
  case Nil
  show ?case by simp
next
  case (Cons a vs)
  obtain i v where a: "a = (i, v)" by (cases a)
  let ?t = "tn @ ''@s.whatsapp.net''"
  let ?st1 = "st\<lparr>sendAttempts := sendAttempts st @ [(provider v, ?t, msg)]\<rparr>"
  show ?case
  proof (cases "status v = connected")
    case False
    with a Cons.IH [of rs st] show ?thesis by simp
  next
    case True
    show ?thesis
    proof (cases "f (provider v) ?t msg")
      case (Some err)
      with a True Cons.IH [of _ ?st1] show ?thesis by (simp add: Let_def)
    next
      case None
      show ?thesis
      proof (cases "saveConversation i tn msg bot now ?st1")
        case (Inl e)
        with a True None Cons.IH [of _ ?st1] show ?thesis by (simp add: Let_def)
      next
        case (Inr st2)
        from saveConversation_Inr(1-5) [OF Inr] a True None Inr Cons.IH [of _ st2]
        show ?thesis by (simp add: Let_def)
      qed
    qed
  qed
qed

text \<open>
  \<^bold>\<open>C9.\<close>  A broadcast calls \<^verbatim>\<open>sendText\<close> once for every vendor whose status
  is connected, in the order of the registry, and for no other vendor,
  whatever the calls before it did.  The result list holds exactly one
  outcome for each connected vendor, in the same order: the failure with
  the error's message when the vendor's send throws (or when its
  conversation file cannot be parsed), success otherwise.  The registry, the
  port pool, the metrics and the vendors file are left as they were.
\<close>

theorem C9_broadcast_outcomes:
  "fst (broadcast f tn msg now st) =
     map (\<lambda>(i, v).
            case f (provider v) (tn @ ''@s.whatsapp.net'') msg of
              Some err \<Rightarrow> \<lparr>r_vendorId = i, r_success = False, r_error = Some err\<rparr>
            | None \<Rightarrow>
                (case conversations st (i, tn) of
                   CorruptConversation m \<Rightarrow> \<lparr>r_vendorId = i, r_success = False, r_error = Some m\<rparr>
                 | _ \<Rightarrow> \<lparr>r_vendorId = i, r_success = True, r_error = None\<rparr>))
         (filter (\<lambda>(i, v). status v = connected) (vendors st)) \<and>
   map r_vendorId (fst (broadcast f tn msg now st)) =
     map fst (filter (\<lambda>(i, v). status v = connected) (vendors st)) \<and>
   sendAttempts (snd (broadcast f tn msg now st)) =
     sendAttempts st @ map (\<lambda>(i, v). (provider v, tn @ ''@s.whatsapp.net'', msg))
                        (filter (\<lambda>(i, v). status v = connected) (vendors st)) \<and>
   vendors (snd (broadcast f tn msg now st)) = vendors st \<and>
   usedPorts (snd (broadcast f tn msg now st)) = usedPorts st \<and>
   metrics (snd (broadcast f tn msg now st)) = metrics st \<and>
   vendorsFile (snd (broadcast f tn msg now st)) = vendorsFile st"
proof -
  have res: "fst (broadcast f tn msg now st) =
     map (\<lambda>(i, v).
            case f (provider v) (tn @ ''@s.whatsapp.net'') msg of
              Some err \<Rightarrow> \<lparr>r_vendorId = i, r_success = False, r_error = Some err\<rparr>
            | None \<Rightarrow>
                (case conversations st (i, tn) of
                   CorruptConversation m \<Rightarrow> \<lparr>r_vendorId = i, r_success = False, r_error = Some m\<rparr>
                 | _ \<Rightarrow> \<lparr>r_vendorId = i, r_success = True, r_error = None\<rparr>))
         (filter (\<lambda>(i, v). status v = connected) (vendors st))"
    unfolding broadcast_def broadcastLoop_result by simp
  have ids: "map r_vendorId (fst (broadcast f tn msg now st)) =
     map fst (filter (\<lambda>(i, v). status v = connected) (vendors st))"
    unfolding res map_map
    by (rule map_cong [OF refl]) (auto split: option.splits conversation_file.splits)
  from res ids broadcastLoop_frame [of f tn msg now "vendors st" "[]" st] show ?thesis
    unfolding broadcast_def by simp
qed

theorem C9_broadcast_outcomes_witness:
  "fst (broadcast secondTimesOut ''5215550000'' ''hello'' 10 threeConnected) =
     [\<lparr>r_vendorId = ''a'', r_success = True, r_error = None\<rparr>,
      \<lparr>r_vendorId = ''b'', r_success = False, r_error = Some ''timed out''\<rparr>,
      \<lparr>r_vendorId = ''c'', r_success = True, r_error = None\<rparr>] \<and>
   sendAttempts (snd (broadcast secondTimesOut ''5215550000'' ''hello'' 10 threeConnected)) =
     [(0, ''5215550000@s.whatsapp.net'', ''hello''),
      (1, ''5215550000@s.whatsapp.net'', ''hello''),
      (2, ''5215550000@s.whatsapp.net'', ''hello'')] \<and>
   vendors (snd (broadcast secondTimesOut ''5215550000'' ''hello'' 10 threeConnected)) =
     vendors threeConnected"
  using C9_broadcast_outcomes [of secondTimesOut "''5215550000''" "''hello''" 10 threeConnected]
  by (simp add: threeConnected_eq secondTimesOut_def)

end
